theory Spec2Isabelle
  imports Complex_Main "HOL-Library.Log_Nat" "HOL-Library.Sublist"
begin

section \<open>JavaScript numbers\<close>

text \<open>
  A JavaScript number is an IEEE-754 double: a finite value, which is a rational number,
  one of the two infinities, or NaN. Negative zero is identified with zero: no divisor
  of the code below can be negative zero, and both zeros compare equal.
\<close>

datatype jsnum = Fin rat | PInf | NInf | NaN

fun isNaN :: "jsnum \<Rightarrow> bool" where
  "isNaN NaN = True"
| "isNaN _ = False"

fun isFinite :: "jsnum \<Rightarrow> bool" where
  "isFinite (Fin _) = True"
| "isFinite _ = False"

text \<open>
  The conversion of a number to a string in a template literal. The three special values
  have fixed renderings; the rendering of a finite double (shortest round-trip decimal)
  belongs to the host and is the parameter \<open>fin\<close>.
\<close>

fun numToString :: "(rat \<Rightarrow> string) \<Rightarrow> jsnum \<Rightarrow> string" where
  "numToString fin (Fin q) = fin q"
| "numToString fin PInf = ''Infinity''"
| "numToString fin NInf = ''-Infinity''"
| "numToString fin NaN = ''NaN''"

section \<open>The console and thrown values\<close>

datatype console_call = ConsoleError string | ConsoleLog "string list"

type_synonym console = "console_call list"

text \<open>
  What a \<open>throw\<close> or a rejected promise carries: the value \<open>undefined\<close>, the TypeError of
  a property access on \<open>undefined\<close>, or a reason chosen by a collaborator.
\<close>

datatype thrown = Undefined | TypeError | Reason string

section \<open>profiler.ts: the computation-error check\<close>

text \<open>
  \<open>ProfilerException(msg)\<close> writes \<open>msg\<close> to \<open>console.error\<close> and returns nothing, so
  the caller's \<open>throw ProfilerException(...)\<close> throws \<open>undefined\<close>.
\<close>

definition ProfilerException :: "string \<Rightarrow> console \<Rightarrow> console" where
  "ProfilerException msg con = con @ [ConsoleError msg]"

text \<open>The template literal \<open>The result of the '${name}' is ${num}.\<close>\<close>

definition error_message :: "(rat \<Rightarrow> string) \<Rightarrow> string \<Rightarrow> jsnum \<Rightarrow> string" where
  "error_message fin name num =
     ''The result of the '' @ [CHR 0x27] @ name @ [CHR 0x27] @ '' is '' @ numToString fin num @ ''.''"

text \<open>The loop of \<open>checkComputationForErrors\<close> over \<open>vals\<close>, in index order.\<close>

fun check_loop :: "(rat \<Rightarrow> string) \<Rightarrow> jsnum list \<Rightarrow> string \<Rightarrow> console \<Rightarrow> (thrown + unit) \<times> console" where
  "check_loop fin [] name con = (Inr (), con)"
| "check_loop fin (num # rest) name con =
     (if isNaN num \<or> \<not> isFinite num
      then (Inl Undefined, ProfilerException (error_message fin name num) con)
      else check_loop fin rest name con)"

text \<open>
  The element type tag \<open>dtype\<close> is a JavaScript string, compared with \<open>'float32'\<close>.
  The result is \<open>Inl\<close> of the thrown value or \<open>Inr ()\<close> for a normal return, with the
  console after the call.
\<close>

definition checkComputationForErrors ::
  "(rat \<Rightarrow> string) \<Rightarrow> jsnum list \<Rightarrow> string \<Rightarrow> string \<Rightarrow> console \<Rightarrow> (thrown + unit) \<times> console" where
  "checkComputationForErrors fin vals dtype name con =
     (if dtype \<noteq> ''float32'' then (Inr (), con)
      else check_loop fin vals name con)"

section \<open>Tensors\<close>

text \<open>
  The fields of a \<open>Tensor\<close> that the profiler and its logger read. Dimensions, rank and
  element count are non-negative integers. The field \<open>size\<close> is named \<open>sizeT\<close> here.
\<close>

record tensor =
  tensor_id :: nat
  dtype :: string
  shape :: "nat list"
  rank :: nat
  sizeT :: nat

text \<open>A \<open>NamedTensorMap\<close>: the entries of the object in the order \<open>for ... in\<close> visits them.\<close>

type_synonym NamedTensorMap = "(string \<times> tensor) list"

section \<open>profiler.ts: the logger\<close>

text \<open>
  Modelled from the spec: \<open>util.rightPad\<close> is defined in \<open>util.ts\<close>, which is not among
  the sources. The spec describes a field padded with spaces on the right up to a fixed
  minimum width; a string that is already as long is returned unchanged.
\<close>

definition rightPad :: "string \<Rightarrow> nat \<Rightarrow> string" where
  "rightPad a n = (if n \<le> length a then a else a @ replicate (n - length a) CHR '' '')"

text \<open>\<open>Array.prototype.toString\<close> on an array of numbers: the elements joined by commas.\<close>

fun join_comma :: "string list \<Rightarrow> string" where
  "join_comma [] = []"
| "join_comma [x] = x"
| "join_comma (x # y # ys) = x @ '','' @ join_comma (y # ys)"

definition natToString :: "(rat \<Rightarrow> string) \<Rightarrow> nat \<Rightarrow> string" where
  "natToString fin n = numToString fin (Fin (of_nat n))"

definition shapeToString :: "(rat \<Rightarrow> string) \<Rightarrow> nat list \<Rightarrow> string" where
  "shapeToString fin sh = join_comma (map (natToString fin) sh)"

text \<open>
  The \<open>for (const name in inputs)\<close> loop of \<open>logKernelProfile\<close>, with the accumulator
  \<open>inputShapesDescription\<close> that each iteration extends by \<open>+=\<close>.
\<close>

fun inputShapesDescription :: "(rat \<Rightarrow> string) \<Rightarrow> NamedTensorMap \<Rightarrow> string \<Rightarrow> string" where
  "inputShapesDescription fin [] acc = acc"
| "inputShapesDescription fin ((name, t) # rest) acc =
     (let inputShape = shape t;
          inputRank = length inputShape
      in inputShapesDescription fin rest
           (acc @ name @ '': '' @ natToString fin inputRank @ ''D ''
              @ (if 0 < inputRank then shapeToString fin inputShape else [])
              @ '' ''))"

definition TAB :: string where
  "TAB = [CHR 0x09]"

text \<open>
  \<open>Logger.logKernelProfile\<close>: one \<open>console.log\<close> call with the format string and its six
  style arguments. The optional \<open>extraInfo\<close> renders as \<open>undefined\<close> when absent.
\<close>

definition logKernelProfile ::
  "(rat \<Rightarrow> string) \<Rightarrow> string \<Rightarrow> tensor \<Rightarrow> jsnum list \<Rightarrow> jsnum \<Rightarrow> NamedTensorMap \<Rightarrow>
   string option \<Rightarrow> console \<Rightarrow> console" where
  "logKernelProfile fin name result vals timeMs inputs extraInfo con =
     (let time = rightPad (numToString fin timeMs @ ''ms'') 9;
          paddedName = rightPad name 25;
          rank = rank result;
          size = sizeT result;
          shape = rightPad (shapeToString fin (shape result)) 14;
          inputShapesDescription = inputShapesDescription fin inputs []
      in con @ [ConsoleLog
           [''%c'' @ paddedName @ TAB @ ''%c'' @ time @ TAB @ ''%c'' @ natToString fin rank @ ''D ''
              @ shape @ TAB @ ''%c'' @ natToString fin size @ TAB @ ''%c'' @ inputShapesDescription
              @ TAB @ ''%c'' @ (case extraInfo of None \<Rightarrow> ''undefined'' | Some x \<Rightarrow> x),
            ''font-weight:bold'', ''color:red'', ''color:blue'', ''color: orange'',
            ''color: green'', ''color: steelblue'']])"

section \<open>profiler.ts: profileKernel\<close>

text \<open>What the thunk \<open>f\<close> returns, \<open>T extends Tensor | Tensor[]\<close>.\<close>

datatype result = Single tensor | Many "tensor list"

text \<open>
  The resolved value of the timer's promise. \<open>getExtraProfileInfo\<close> is optional; when
  present, it is represented by the text it returns.
\<close>

record timing =
  kernelMs :: jsnum
  getExtraProfileInfo :: "string option"

text \<open>
  The synchronous state of one call: the local variable \<open>result\<close> (\<open>None\<close> while it is
  \<open>undefined\<close>) and the state \<open>'w\<close> of everything outside, on which \<open>f\<close> acts.
  \<open>holdResultWrapperFn\<close> runs \<open>f\<close> and stores what it returns in \<open>result\<close>.
\<close>

definition holdResultWrapperFn ::
  "('w \<Rightarrow> result \<times> 'w) \<Rightarrow> result option \<times> 'w \<Rightarrow> result option \<times> 'w" where
  "holdResultWrapperFn f s = (case f (snd s) of (r, w') \<Rightarrow> (Some r, w'))"

text \<open>
  The state of a promise, and the two callbacks of \<open>profileKernel\<close> as jobs of the
  microtask queue: \<open>DataThen i r vals\<close> is the callback given to \<open>r.data().then\<close> for the
  output \<open>r\<close> at index \<open>i\<close> of \<open>results\<close>, called with \<open>vals\<close>; \<open>TimerThen i r vals timing\<close>
  is the callback given to \<open>timer.then\<close> inside it, called with \<open>timing\<close>.
\<close>

datatype 'a promise = Pending | Fulfilled 'a | Rejected

datatype job = DataThen nat tensor "jsnum list" | TimerThen nat tensor "jsnum list" timing

text \<open>
  What happened to the output at an index, in order: its values were materialized (its
  \<open>data()\<close> promise was fulfilled), \<open>checkComputationForErrors\<close> ran on them (\<open>True\<close> when it
  returned, \<open>False\<close> when it threw), \<open>logKernelProfile\<close> was called for it.
\<close>

datatype obs = Materialized nat | Validated nat bool | Logged nat

text \<open>
  What \<open>profileKernel\<close> leaves behind when it returns: the variables its callbacks
  captured (\<open>name\<close>, \<open>inputs\<close>, the outputs \<open>results\<close>), the promises they wait for, the
  callbacks registered on the timer's promise, the microtask queue, the console, the
  values thrown inside callbacks (nothing handles them), and the history of observations.
\<close>

record background =
  kernel_name :: string
  kernel_inputs :: NamedTensorMap
  results :: "tensor list"
  data_promises :: "jsnum list promise list"
  timer :: "timing promise"
  timer_reactions :: "(nat \<times> tensor \<times> jsnum list) list"
  microtasks :: "job list"
  console :: console
  unhandled :: "thrown list"
  history :: "obs list"

text \<open>
  \<open>profileKernel\<close>. \<open>backendTimer_time\<close> is \<open>this.backendTimer.time\<close>, a function supplied by
  the backend: it receives the wrapper and acts on the synchronous state. If the wrapper
  was never called, \<open>result\<close> is \<open>undefined\<close>, \<open>results\<close> is \<open>[undefined]\<close> and
  \<open>r.data()\<close> raises a TypeError. Otherwise one \<open>then\<close> callback is registered per output
  and the call returns \<open>result\<close>; no callback has run yet.
\<close>

definition profileKernel ::
  "((result option \<times> 'w \<Rightarrow> result option \<times> 'w) \<Rightarrow> result option \<times> 'w \<Rightarrow> result option \<times> 'w) \<Rightarrow>
   string \<Rightarrow> NamedTensorMap \<Rightarrow> ('w \<Rightarrow> result \<times> 'w) \<Rightarrow> 'w \<Rightarrow>
   (thrown + result) \<times> 'w \<times> background option" where
  "profileKernel backendTimer_time name inputs f w =
     (case backendTimer_time (holdResultWrapperFn f) (None, w) of
        (None, w') \<Rightarrow> (Inl TypeError, w', None)
      | (Some result, w') \<Rightarrow>
          (let rs = (case result of Many ts \<Rightarrow> ts | Single t \<Rightarrow> [t])
           in (Inr result, w',
               Some \<lparr>kernel_name = name, kernel_inputs = inputs, results = rs,
                     data_promises = replicate (length rs) Pending, timer = Pending,
                     timer_reactions = [], microtasks = [], console = [], unhandled = [],
                     history = []\<rparr>)))"

text \<open>
  Running a callback. The callback of \<open>r.data().then\<close> checks the values; if the check
  throws, the callback ends there, with the thrown value unhandled; otherwise it calls
  \<open>timer.then\<close>, which queues the logging callback at once if the timer's promise is
  already fulfilled, keeps it for later if the promise is pending, and drops it if the
  promise is rejected. The callback of \<open>timer.then\<close> calls the logger.
\<close>

fun run_job :: "(rat \<Rightarrow> string) \<Rightarrow> job \<Rightarrow> background \<Rightarrow> background" where
  "run_job fin (DataThen i r vals) b =
     (case checkComputationForErrors fin vals (dtype r) (kernel_name b) (console b) of
        (Inl e, con) \<Rightarrow>
          b\<lparr>console := con, unhandled := unhandled b @ [e],
            history := history b @ [Validated i False]\<rparr>
      | (Inr _, con) \<Rightarrow>
          (case timer b of
             Pending \<Rightarrow>
               b\<lparr>console := con, timer_reactions := timer_reactions b @ [(i, r, vals)],
                 history := history b @ [Validated i True]\<rparr>
           | Fulfilled t \<Rightarrow>
               b\<lparr>console := con, microtasks := microtasks b @ [TimerThen i r vals t],
                 history := history b @ [Validated i True]\<rparr>
           | Rejected \<Rightarrow>
               b\<lparr>console := con, history := history b @ [Validated i True]\<rparr>))"
| "run_job fin (TimerThen i r vals t) b =
     (let extraInfo = (case getExtraProfileInfo t of None \<Rightarrow> [] | Some x \<Rightarrow> x)
      in b\<lparr>console := logKernelProfile fin (kernel_name b) r vals (kernelMs t) (kernel_inputs b)
                         (Some extraInfo) (console b),
           history := history b @ [Logged i]\<rparr>)"

text \<open>
  What can happen after \<open>profileKernel\<close> has returned: the \<open>data()\<close> promise of the output
  at an index is fulfilled with values or rejected, the timer's promise is fulfilled or
  rejected, or the job at the head of the microtask queue runs. A promise settles once;
  a later event for it changes nothing. A schedule is any list of such events.
\<close>

datatype event =
  DataResolve nat "jsnum list" | DataReject nat | TimerResolve timing | TimerReject | RunJob

fun step :: "(rat \<Rightarrow> string) \<Rightarrow> event \<Rightarrow> background \<Rightarrow> background" where
  "step fin (DataResolve i vals) b =
     (if i < length (results b) \<and> i < length (data_promises b) \<and> data_promises b ! i = Pending
      then b\<lparr>data_promises := (data_promises b)[i := Fulfilled vals],
             microtasks := microtasks b @ [DataThen i (results b ! i) vals],
             history := history b @ [Materialized i]\<rparr>
      else b)"
| "step fin (DataReject i) b =
     (if i < length (data_promises b) \<and> data_promises b ! i = Pending
      then b\<lparr>data_promises := (data_promises b)[i := Rejected]\<rparr>
      else b)"
| "step fin (TimerResolve t) b =
     (if timer b = Pending
      then b\<lparr>timer := Fulfilled t,
             microtasks := microtasks b @ map (\<lambda>(i, r, vals). TimerThen i r vals t) (timer_reactions b),
             timer_reactions := []\<rparr>
      else b)"
| "step fin TimerReject b =
     (if timer b = Pending then b\<lparr>timer := Rejected, timer_reactions := []\<rparr> else b)"
| "step fin RunJob b =
     (case microtasks b of
        [] \<Rightarrow> b
      | j # js \<Rightarrow> run_job fin j (b\<lparr>microtasks := js\<rparr>))"

definition run_events :: "(rat \<Rightarrow> string) \<Rightarrow> event list \<Rightarrow> background \<Rightarrow> background" where
  "run_events fin evs b = foldl (\<lambda>b e. step fin e b) b evs"

section \<open>Arithmetic of JavaScript numbers\<close>

text \<open>
  The benchmark computes with \<open>-\<close>, \<open>+\<close>, \<open>/\<close> and \<open>Math.min\<close> on doubles. Each
  operation on finite operands returns the exact result rounded to the nearest double,
  ties to the even significand (IEEE-754 binary64: 53 significant bits, exponents from
  -1022 to 1023, gradual underflow, overflow to infinity).
\<close>

definition pow2 :: "int \<Rightarrow> rat" where
  "pow2 k = (if 0 \<le> k then 2 ^ nat k else 1 / 2 ^ nat (- k))"

text \<open>The integer \<open>e\<close> with \<open>2 ^ e \<le> a < 2 ^ (e + 1)\<close>, for \<open>a > 0\<close>.\<close>

definition ilog2 :: "rat \<Rightarrow> int" where
  "ilog2 a = (if 1 \<le> a then bitlen \<lfloor>a\<rfloor> - 1 else - bitlen (\<lceil>1 / a\<rceil> - 1))"

definition round_half_even :: "rat \<Rightarrow> int" where
  "round_half_even x =
     (let f = \<lfloor>x\<rfloor>; r = x - of_int f
      in if r < 1 / 2 then f
         else if 1 / 2 < r then f + 1
         else if even f then f else f + 1)"

definition round_double :: "rat \<Rightarrow> jsnum" where
  "round_double q =
     (if q = 0 then Fin 0
      else let a = \<bar>q\<bar>;
               e = max (ilog2 a) (- 1022);
               g = pow2 (e - 52);
               m = round_half_even (a / g)
           in if 1024 \<le> e \<or> (e = 1023 \<and> m = 9007199254740992)
              then (if 0 < q then PInf else NInf)
              else Fin (if 0 < q then of_int m * g else - (of_int m * g)))"

fun js_add :: "jsnum \<Rightarrow> jsnum \<Rightarrow> jsnum" where
  "js_add NaN _ = NaN"
| "js_add _ NaN = NaN"
| "js_add PInf NInf = NaN"
| "js_add NInf PInf = NaN"
| "js_add PInf _ = PInf"
| "js_add _ PInf = PInf"
| "js_add NInf _ = NInf"
| "js_add _ NInf = NInf"
| "js_add (Fin a) (Fin b) = round_double (a + b)"

fun js_sub :: "jsnum \<Rightarrow> jsnum \<Rightarrow> jsnum" where
  "js_sub NaN _ = NaN"
| "js_sub _ NaN = NaN"
| "js_sub PInf PInf = NaN"
| "js_sub NInf NInf = NaN"
| "js_sub PInf _ = PInf"
| "js_sub _ NInf = PInf"
| "js_sub NInf _ = NInf"
| "js_sub _ PInf = NInf"
| "js_sub (Fin a) (Fin b) = round_double (a - b)"

fun js_div :: "jsnum \<Rightarrow> jsnum \<Rightarrow> jsnum" where
  "js_div NaN _ = NaN"
| "js_div _ NaN = NaN"
| "js_div (Fin a) (Fin b) =
     (if b = 0 then (if a = 0 then NaN else if 0 < a then PInf else NInf)
      else round_double (a / b))"
| "js_div (Fin a) _ = Fin 0"
| "js_div PInf (Fin b) = (if b < 0 then NInf else PInf)"
| "js_div NInf (Fin b) = (if b < 0 then PInf else NInf)"
| "js_div _ _ = NaN"

text \<open>The comparison \<open>a <= b\<close>, false when either side is NaN.\<close>

fun js_le :: "jsnum \<Rightarrow> jsnum \<Rightarrow> bool" where
  "js_le NaN _ = False"
| "js_le _ NaN = False"
| "js_le NInf _ = True"
| "js_le _ PInf = True"
| "js_le (Fin a) (Fin b) = (a \<le> b)"
| "js_le _ _ = False"

text \<open>
  \<open>Math.min(...xs)\<close>: starting from \<open>+Infinity\<close>, the least argument, or NaN if any
  argument is NaN.
\<close>

fun js_min2 :: "jsnum \<Rightarrow> jsnum \<Rightarrow> jsnum" where
  "js_min2 NaN _ = NaN"
| "js_min2 _ NaN = NaN"
| "js_min2 NInf _ = NInf"
| "js_min2 _ NInf = NInf"
| "js_min2 PInf y = y"
| "js_min2 x PInf = x"
| "js_min2 (Fin a) (Fin b) = Fin (min a b)"

definition Math_min :: "jsnum list \<Rightarrow> jsnum" where
  "Math_min xs = foldl js_min2 PInf xs"

section \<open>The benchmark harness: the function time\<close>

text \<open>
  How an awaited promise, or the promise of an \<open>async\<close> function, ends: it is fulfilled,
  it is rejected with a value (an \<open>await\<close> then throws that value), or it never settles
  (the function that awaits it never resumes).
\<close>

datatype settlement = Fulfils | RejectsWith thrown | NeverSettles

text \<open>
  The library functions that \<open>time\<close> calls, as functions on the state \<open>'w\<close> of everything
  outside the harness: awaiting \<open>t.data()\<close>, \<open>t.dispose()\<close> and \<open>tf.util.now()\<close>.
\<close>

record 'w tf =
  tensor_data :: "tensor \<Rightarrow> 'w \<Rightarrow> settlement \<times> 'w"
  tensor_dispose :: "tensor \<Rightarrow> 'w \<Rightarrow> 'w"
  util_now :: "'w \<Rightarrow> jsnum \<times> 'w"

text \<open>The calls that the harness makes, in program order; \<open>Now\<close> carries the clock reading.\<close>

datatype call = DoRep nat result | EndTrial | AwaitData tensor | Dispose tensor | Now jsnum

text \<open>
  The variables of one call of \<open>time\<close>: \<open>toDispose\<close>, \<open>times\<close> (named \<open>timesT\<close> here), the
  state of the outside, and the log of the calls made so far.
\<close>

record 'w harness =
  toDispose :: "tensor list"
  timesT :: "jsnum list"
  world :: 'w
  calls :: "call list"

text \<open>\<open>Array.isArray(result) ? result : [result]\<close>\<close>

fun as_array :: "result \<Rightarrow> tensor list" where
  "as_array (Many ts) = ts"
| "as_array (Single t) = [t]"

text \<open>The closure \<open>dispose\<close>: every tensor of \<open>toDispose\<close> is disposed, then the list is emptied.\<close>

definition dispose :: "'w tf \<Rightarrow> 'w harness \<Rightarrow> 'w harness" where
  "dispose lib h =
     h\<lparr>world := foldl (\<lambda>w t. tensor_dispose lib t w) (world h) (toDispose h),
       calls := calls h @ map Dispose (toDispose h),
       toDispose := []\<rparr>"

text \<open>
  The loop \<open>for (let r = 0; r < reps; ++r)\<close> of \<open>trial\<close>, from the index \<open>r\<close> on, with the
  local variable \<open>result\<close> (\<open>None\<close> while it is \<open>undefined\<close>).
\<close>

function reps_loop ::
  "(nat \<Rightarrow> 'w \<Rightarrow> result \<times> 'w) \<Rightarrow> nat \<Rightarrow> nat \<Rightarrow> result option \<times> 'w harness \<Rightarrow>
   result option \<times> 'w harness" where
  "reps_loop doRep reps r (result, h) =
     (if r < reps
      then (case doRep r (world h) of
              (res, w') \<Rightarrow>
                reps_loop doRep reps (Suc r)
                  (Some res,
                   h\<lparr>toDispose := toDispose h @ as_array res, world := w',
                     calls := calls h @ [DoRep r res]\<rparr>))
      else (result, h))"
  by pat_completeness auto
termination
  by (relation "measure (\<lambda>(doRep, reps, r, s). reps - r)") auto

declare reps_loop.simps [simp del]

text \<open>
  \<open>(Array.isArray(result) ? result[0] : result)\<close>: \<open>None\<close> when the value is
  \<open>undefined\<close>, that is when \<open>result\<close> is an empty array or was never assigned.
\<close>

fun first_output :: "result option \<Rightarrow> tensor option" where
  "first_output None = None"
| "first_output (Some (Single t)) = Some t"
| "first_output (Some (Many [])) = None"
| "first_output (Some (Many (t # ts))) = Some t"

text \<open>
  The closure \<open>trial\<close>. Without \<open>endTrial\<close>, calling \<open>.data()\<close> on \<open>undefined\<close> raises a
  TypeError, which rejects the promise of \<open>trial\<close>.
\<close>

definition trial ::
  "'w tf \<Rightarrow> (nat \<Rightarrow> 'w \<Rightarrow> result \<times> 'w) \<Rightarrow> ('w \<Rightarrow> settlement \<times> 'w) option \<Rightarrow> nat \<Rightarrow>
   'w harness \<Rightarrow> settlement \<times> 'w harness" where
  "trial lib doRep endTrial reps h =
     (case reps_loop doRep reps 0 (None, h) of
        (result, h1) \<Rightarrow>
          (case endTrial of
             Some hook \<Rightarrow>
               (case hook (world h1) of
                  (s, w') \<Rightarrow> (s, h1\<lparr>world := w', calls := calls h1 @ [EndTrial]\<rparr>))
           | None \<Rightarrow>
               (case first_output result of
                  None \<Rightarrow> (RejectsWith TypeError, h1)
                | Some t \<Rightarrow>
                    (case tensor_data lib t (world h1) of
                       (s, w') \<Rightarrow> (s, h1\<lparr>world := w', calls := calls h1 @ [AwaitData t]\<rparr>)))))"

text \<open>
  The timed loop \<open>for (let t = 0; t < trials; ++t)\<close>, from the index \<open>t\<close> on. An \<open>await\<close>
  that throws or never resumes ends the loop with that settlement.
\<close>

function trials_loop ::
  "'w tf \<Rightarrow> (nat \<Rightarrow> 'w \<Rightarrow> result \<times> 'w) \<Rightarrow> ('w \<Rightarrow> settlement \<times> 'w) option \<Rightarrow> bool \<Rightarrow> nat \<Rightarrow>
   nat \<Rightarrow> nat \<Rightarrow> 'w harness \<Rightarrow> settlement \<times> 'w harness" where
  "trials_loop lib doRep endTrial disposeAfterEachTrial trials reps t h =
     (if t < trials
      then (case util_now lib (world h) of
              (start, w1) \<Rightarrow>
                (case trial lib doRep endTrial reps (h\<lparr>world := w1, calls := calls h @ [Now start]\<rparr>) of
                   (Fulfils, h2) \<Rightarrow>
                     (case util_now lib (world h2) of
                        (stop, w3) \<Rightarrow>
                          (let h3 = h2\<lparr>timesT := timesT h2 @ [js_sub stop start], world := w3,
                                      calls := calls h2 @ [Now stop]\<rparr>;
                               h4 = (if disposeAfterEachTrial then dispose lib h3 else h3)
                           in trials_loop lib doRep endTrial disposeAfterEachTrial trials reps (Suc t) h4))
                 | (RejectsWith e, h2) \<Rightarrow> (RejectsWith e, h2)
                 | (NeverSettles, h2) \<Rightarrow> (NeverSettles, h2)))
      else (Fulfils, h))"
  by pat_completeness auto
termination
  by (relation "measure (\<lambda>(lib, doRep, endTrial, d, trials, reps, t, h). trials - t)") auto

declare trials_loop.simps [simp del]

text \<open>
  What a completed call of \<open>time\<close> computed: the constants \<open>mean\<close> and \<open>min\<close> (named \<open>minT\<close>
  here) and the two lines it wrote with \<open>console.log\<close>.
\<close>

record summary =
  mean :: jsnum
  minT :: jsnum
  printed :: console

text \<open>
  \<open>time\<close>. The optional parameters are \<open>None\<close> when the caller leaves them out; the
  defaults are those of the signature. \<open>toFixed\<close> is \<open>Number.prototype.toFixed\<close> of the
  host. The result is the settlement of the promise that \<open>time\<close> returns, the variables of
  the call at that point, and the summary if the call ran to its end.
\<close>

definition time ::
  "'w tf \<Rightarrow> (jsnum \<Rightarrow> nat \<Rightarrow> string) \<Rightarrow> (nat \<Rightarrow> 'w \<Rightarrow> result \<times> 'w) \<Rightarrow>
   ('w \<Rightarrow> settlement \<times> 'w) option \<Rightarrow> bool option \<Rightarrow> nat option \<Rightarrow> nat option \<Rightarrow> 'w \<Rightarrow>
   settlement \<times> 'w harness \<times> summary option" where
  "time lib toFixed doRep endTrial disposeAfterEachTrial_arg trials_arg reps_arg w =
     (let disposeAfterEachTrial = (case disposeAfterEachTrial_arg of None \<Rightarrow> False | Some b \<Rightarrow> b);
          trials = (case trials_arg of None \<Rightarrow> 50 | Some n \<Rightarrow> n);
          reps = (case reps_arg of None \<Rightarrow> 1 | Some n \<Rightarrow> n);
          h0 = \<lparr>toDispose = [], timesT = [], world = w, calls = []\<rparr>
      in case trial lib doRep endTrial reps h0 of
           (Fulfils, h1) \<Rightarrow>
             (case trials_loop lib doRep endTrial disposeAfterEachTrial trials reps 0 (dispose lib h1) of
                (Fulfils, h2) \<Rightarrow>
                  (let mean = js_div (foldl js_add (Fin 0) (timesT h2)) (Fin (of_nat trials));
                       min = Math_min (timesT h2);
                       fmt = (\<lambda>n. toFixed n 3)
                   in (Fulfils, h2,
                       Some \<lparr>mean = mean, minT = min,
                             printed =
                               [ConsoleLog [''Mean time: '' @ fmt mean @ '' ms -> ''
                                              @ fmt (js_div mean (Fin (of_nat reps))) @ '' / rep''],
                                ConsoleLog [''Min time: '' @ fmt min @ '' ms -> ''
                                              @ fmt (js_div min (Fin (of_nat reps))) @ '' / rep'']]\<rparr>))
              | (s, h2) \<Rightarrow> (s, h2, None))
         | (s, h1) \<Rightarrow> (s, h1, None))"

section \<open>Notions used to state the properties of the harness\<close>

text \<open>
  The protocol of a trial in the words of its description: the work of one repetition is
  run once for each index of the list, in order, each run starting in the state its
  predecessor left; the result is the list of the indices with what each run returned.
\<close>

fun sequential_reps ::
  "(nat \<Rightarrow> 'w \<Rightarrow> result \<times> 'w) \<Rightarrow> nat list \<Rightarrow> 'w \<Rightarrow> (nat \<times> result) list \<times> 'w" where
  "sequential_reps doRep [] w = ([], w)"
| "sequential_reps doRep (r # rs) w =
     (case doRep r w of
        (res, w') \<Rightarrow>
          (case sequential_reps doRep rs w' of (xs, w'') \<Rightarrow> ((r, res) # xs, w'')))"

text \<open>
  Readings of the log of calls: the clock readings, the disposed tensors, the tensors
  that the repetitions returned, and the indices given to the repetitions, each in the
  order of the calls.
\<close>

fun now_readings :: "call list \<Rightarrow> jsnum list" where
  "now_readings [] = []"
| "now_readings (Now v # cs) = v # now_readings cs"
| "now_readings (c # cs) = now_readings cs"

fun disposals :: "call list \<Rightarrow> tensor list" where
  "disposals [] = []"
| "disposals (Dispose t # cs) = t # disposals cs"
| "disposals (c # cs) = disposals cs"

fun outputs :: "call list \<Rightarrow> tensor list" where
  "outputs [] = []"
| "outputs (DoRep r res # cs) = as_array res @ outputs cs"
| "outputs (c # cs) = outputs cs"

fun do_reps :: "call list \<Rightarrow> nat list" where
  "do_reps [] = []"
| "do_reps (DoRep r res # cs) = r # do_reps cs"
| "do_reps (c # cs) = do_reps cs"

text \<open>The elapsed times of consecutive pairs of clock readings (start, stop).\<close>

fun pair_diffs :: "jsnum list \<Rightarrow> jsnum list" where
  "pair_diffs (start # stop # rest) = js_sub stop start # pair_diffs rest"
| "pair_diffs _ = []"

text \<open>
  Every \<open>await\<close> of a trial is fulfilled: the hook, when there is one, always fulfils;
  otherwise there is at least one repetition, no repetition returns an empty array, and
  \<open>data()\<close> always fulfils.
\<close>

definition awaits_fulfil ::
  "'w tf \<Rightarrow> (nat \<Rightarrow> 'w \<Rightarrow> result \<times> 'w) \<Rightarrow> ('w \<Rightarrow> settlement \<times> 'w) option \<Rightarrow> nat \<Rightarrow> bool" where
  "awaits_fulfil lib doRep endTrial reps =
     (case endTrial of
        Some hook \<Rightarrow> (\<forall>w. fst (hook w) = Fulfils)
      | None \<Rightarrow> 0 < reps \<and> (\<forall>r w. as_array (fst (doRep r w)) \<noteq> []) \<and>
                (\<forall>t w. fst (tensor_data lib t w) = Fulfils))"

section \<open>Example runs of the harness\<close>

text \<open>
  The state of the outside is the list of the readings that the clock will give; reading
  the clock takes the head of the list. \<open>data()\<close> fulfils and \<open>dispose()\<close> changes nothing.
  The work of a repetition returns one tensor, as in the benchmarks \<open>matMul\<close>, \<open>add\<close> and
  \<open>conv2d\<close>, or the empty array with a hook, as in the benchmark \<open>argMax\<close>. The printed
  lines are not examined, so \<open>toFixed\<close> returns the empty string.
\<close>

definition example_tensor :: "nat \<Rightarrow> tensor" where
  "example_tensor n = \<lparr>tensor_id = n, dtype = ''float32'', shape = [2], rank = 1, sizeT = 2\<rparr>"

definition example_lib :: "jsnum list tf" where
  "example_lib =
     \<lparr>tensor_data = (\<lambda>t w. (Fulfils, w)),
      tensor_dispose = (\<lambda>t w. w),
      util_now = (\<lambda>w. case w of [] \<Rightarrow> (NaN, []) | x # xs \<Rightarrow> (x, xs))\<rparr>"

definition example_doRep :: "nat \<Rightarrow> jsnum list \<Rightarrow> result \<times> jsnum list" where
  "example_doRep r w = (Single (example_tensor r), w)"

definition example_doRep_empty :: "nat \<Rightarrow> jsnum list \<Rightarrow> result \<times> jsnum list" where
  "example_doRep_empty r w = (Many [], w)"

definition example_endTrial :: "jsnum list \<Rightarrow> settlement \<times> jsnum list" where
  "example_endTrial w = (Fulfils, w)"

definition example_toFixed :: "jsnum \<Rightarrow> nat \<Rightarrow> string" where
  "example_toFixed n digits = []"

text \<open>
  The work of a repetition may also return an array of several tensors: here the
  repetition \<open>r\<close> returns the two tensors numbered \<open>2 r\<close> and \<open>2 r + 1\<close>.
\<close>

definition example_doRep_pair :: "nat \<Rightarrow> jsnum list \<Rightarrow> result \<times> jsnum list" where
  "example_doRep_pair r w = (Many [example_tensor (2 * r), example_tensor (2 * r + 1)], w)"

text \<open>
  A state of the outside that keeps track of the tensors: besides the readings that the
  clock will give, it holds the number of tensors allocated so far and the list of the
  tensors on which \<open>dispose()\<close> was called, in the order of the calls. The work of a
  repetition allocates one new tensor and returns it. A hook may also reject, as an
  \<open>async\<close> function does when a statement of its body throws.
\<close>

record outside =
  clock :: "jsnum list"
  allocated :: nat
  disposed :: "tensor list"

definition tracking_lib :: "outside tf" where
  "tracking_lib =
     \<lparr>tensor_data = (\<lambda>t w. (Fulfils, w)),
      tensor_dispose = (\<lambda>t w. w\<lparr>disposed := disposed w @ [t]\<rparr>),
      util_now = (\<lambda>w. case clock w of [] \<Rightarrow> (NaN, w) | x # xs \<Rightarrow> (x, w\<lparr>clock := xs\<rparr>))\<rparr>"

definition tracking_doRep :: "nat \<Rightarrow> outside \<Rightarrow> result \<times> outside" where
  "tracking_doRep r w = (Single (example_tensor (allocated w)), w\<lparr>allocated := allocated w + 1\<rparr>)"

definition rejecting_endTrial :: "outside \<Rightarrow> settlement \<times> outside" where
  "rejecting_endTrial w = (RejectsWith (Reason ''readback failed''), w)"

section \<open>An example rendering of numbers for the logger\<close>

text \<open>
  The rendering of the finite numbers that the example of the logger prints: the
  dimensions 3 and 4, the ranks 0 and 2, the size 12, and the time 1.234.
\<close>

definition example_fin :: "rat \<Rightarrow> string" where
  "example_fin q =
     (if q = 0 then ''0'' else if q = 2 then ''2'' else if q = 3 then ''3'' else if q = 4 then ''4''
      else if q = 12 then ''12'' else ''1.234'')"

section \<open>Notions used to state and prove the properties of the background tasks\<close>

text \<open>
  The indices of the outputs whose \<open>data\<close> callback, respectively \<open>timer\<close> callback, is in
  a microtask queue, the invariant of the background state, a background state in which
  no timing has arrived, and the recognisers of a \<open>console.log\<close> call and of a logging
  observation.
\<close>

definition data_jobs :: "job list \<Rightarrow> nat list" where
  "data_jobs q = concat (map (\<lambda>j. case j of DataThen i r v \<Rightarrow> [i] | TimerThen i r v t \<Rightarrow> []) q)"

definition timer_jobs :: "job list \<Rightarrow> nat list" where
  "timer_jobs q = concat (map (\<lambda>j. case j of DataThen i r v \<Rightarrow> [] | TimerThen i r v t \<Rightarrow> [i]) q)"

definition bg_inv :: "background \<Rightarrow> bool" where
  "bg_inv b \<longleftrightarrow>
     length (data_promises b) = length (results b) \<and>
     distinct (data_jobs (microtasks b)) \<and>
     (\<forall>i. i < length (data_promises b) \<and> data_promises b ! i = Pending \<longrightarrow>
          Materialized i \<notin> set (history b)) \<and>
     (\<forall>i. i \<in> set (data_jobs (microtasks b)) \<longrightarrow>
          Materialized i \<in> set (history b) \<and> (\<forall>v. Validated i v \<notin> set (history b))) \<and>
     (\<forall>i v. Validated i v \<in> set (history b) \<longrightarrow> Materialized i \<in> set (history b)) \<and>
     (\<forall>i. i \<in> set (timer_jobs (microtasks b)) \<or> i \<in> fst ` set (timer_reactions b) \<or>
            Logged i \<in> set (history b) \<longrightarrow>
          Validated i True \<in> set (history b) \<and> Validated i False \<notin> set (history b)) \<and>
     (\<forall>i. Logged i \<in> set (history b) \<longrightarrow>
          Materialized i \<in> set (takeWhile (\<lambda>e. e \<noteq> Logged i) (history b)) \<and>
          Validated i True \<in> set (takeWhile (\<lambda>e. e \<noteq> Logged i) (history b)))"

definition is_ConsoleLog :: "console_call \<Rightarrow> bool" where
  "is_ConsoleLog c = (case c of ConsoleLog _ \<Rightarrow> True | ConsoleError _ \<Rightarrow> False)"

definition is_Logged :: "obs \<Rightarrow> bool" where
  "is_Logged x = (case x of Logged _ \<Rightarrow> True | _ \<Rightarrow> False)"

definition no_timing :: "background \<Rightarrow> bool" where
  "no_timing b \<longleftrightarrow>
     (case timer b of Fulfilled t \<Rightarrow> False | _ \<Rightarrow> True) \<and> timer_jobs (microtasks b) = [] \<and>
     filter is_Logged (history b) = []"

section \<open>Properties of the computation-error check\<close>

lemma check_loop_clean:
  "\<forall>v\<in>set vals. \<not> (isNaN v \<or> \<not> isFinite v) \<Longrightarrow> check_loop fin vals name con = (Inr (), con)"
  by (induction vals) auto

lemma check_loop_find:
  "List.find (\<lambda>v. isNaN v \<or> \<not> isFinite v) vals = Some v \<Longrightarrow>
   check_loop fin vals name con = (Inl Undefined, con @ [ConsoleError (error_message fin name v)])"
  by (induction vals) (auto simp: ProfilerException_def split: if_splits)

lemma find_offending:
  "\<exists>x\<in>set vals. P x \<Longrightarrow> \<exists>v. List.find P vals = Some v"
  by (cases "List.find P vals") (auto simp: find_None_iff)

lemma isFinite_not_isNaN: "isFinite v \<Longrightarrow> \<not> isNaN v"
  by (cases v) simp_all

lemma check_loop_throws_iff:
  "(\<exists>e. fst (check_loop fin vals name con) = Inl e) \<longleftrightarrow> (\<exists>v\<in>set vals. isNaN v \<or> \<not> isFinite v)"
  by (induction vals) simp_all

text \<open>
  C2: \<open>checkComputationForErrors\<close> throws (after one \<open>console.error\<close>) exactly when
  \<open>dtype\<close> is \<open>'float32'\<close> and some element of \<open>vals\<close> is NaN or not finite; in every
  other case, that is for every other \<open>dtype\<close> whatever the values and for every float32
  array of finite values, it returns normally and leaves the console as it was.
\<close>

theorem checkComputationForErrors_throws_iff:
  "((\<exists>e. fst (checkComputationForErrors fin vals dty name con) = Inl e) \<longleftrightarrow>
      dty = ''float32'' \<and> (\<exists>v\<in>set vals. isNaN v \<or> \<not> isFinite v)) \<and>
   (dty \<noteq> ''float32'' \<longrightarrow> checkComputationForErrors fin vals dty name con = (Inr (), con)) \<and>
   ((\<forall>v\<in>set vals. isFinite v) \<longrightarrow>
      checkComputationForErrors fin vals dty name con = (Inr (), con))"
proof (intro conjI impI)
  show "(\<exists>e. fst (checkComputationForErrors fin vals dty name con) = Inl e) \<longleftrightarrow>
      dty = ''float32'' \<and> (\<exists>v\<in>set vals. isNaN v \<or> \<not> isFinite v)"
  proof (cases "dty = ''float32''")
    case True
    then show ?thesis
      using check_loop_throws_iff [of fin vals name con]
      by (simp only: checkComputationForErrors_def if_False simp_thms)
  next
    case False
    then show ?thesis
      by (simp only: checkComputationForErrors_def if_True fst_conv simp_thms sum.distinct)
  qed
next
  assume "dty \<noteq> ''float32''"
  then show "checkComputationForErrors fin vals dty name con = (Inr (), con)"
    by (simp add: checkComputationForErrors_def)
next
  assume a: "\<forall>v\<in>set vals. isFinite v"
  then have "\<forall>v\<in>set vals. \<not> (isNaN v \<or> \<not> isFinite v)"
    using isFinite_not_isNaN by blast
  from check_loop_clean [OF this, of fin name con]
  show "checkComputationForErrors fin vals dty name con = (Inr (), con)"
    by (simp only: checkComputationForErrors_def if_cancel split: if_splits)
qed

theorem checkComputationForErrors_throws_iff_witness:
  "(\<exists>e. fst (checkComputationForErrors (\<lambda>q. ''1'') [Fin 1, NaN, PInf] ''float32'' ''add'' []) = Inl e) \<and>
   (\<exists>v\<in>set [Fin 1, NaN, PInf]. isNaN v \<or> \<not> isFinite v) \<and>
   checkComputationForErrors (\<lambda>q. ''1'') [NaN] ''int32'' ''add'' [] = (Inr (), []) \<and>
   list_all isFinite [Fin 1, Fin 2] \<and>
   checkComputationForErrors (\<lambda>q. ''1'') [Fin 1, Fin 2] ''float32'' ''add'' [] = (Inr (), [])"
  using checkComputationForErrors_throws_iff [of "\<lambda>q. ''1''" "[Fin 1, NaN, PInf]" "''float32''" "''add''" "[]"]
    checkComputationForErrors_throws_iff [of "\<lambda>q. ''1''" "[NaN]" "''int32''" "''add''" "[]"]
    checkComputationForErrors_throws_iff [of "\<lambda>q. ''1''" "[Fin 1, Fin 2]" "''float32''" "''add''" "[]"]
  by simp

lemma error_message_inj:
  assumes "isNaN v \<or> \<not> isFinite v" and "isNaN v' \<or> \<not> isFinite v'"
      and "error_message fin name v = error_message fin name' v'"
  shows "name = name' \<and> v = v'"
proof -
  from assms(3) have "rev (error_message fin name v) = rev (error_message fin name' v')"
    by simp
  with assms(1,2) show ?thesis
    by (cases v; cases v') (simp_all add: error_message_def)
qed

text \<open>
  C3: for a float32 array with at least one NaN or non-finite element, one call throws and
  makes exactly one error report. The report is the message built from the kernel's name
  and from the first offending element in index order, and no other pair of a name and an
  offending value gives the same message.
\<close>

theorem checkComputationForErrors_reports_first:
  assumes "\<exists>x\<in>set vals. isNaN x \<or> \<not> isFinite x"
  shows "\<exists>v. List.find (\<lambda>x. isNaN x \<or> \<not> isFinite x) vals = Some v \<and>
     checkComputationForErrors fin vals ''float32'' name con =
       (Inl Undefined, con @ [ConsoleError (error_message fin name v)]) \<and>
     error_message fin name v =
       ''The result of the '' @ [CHR 0x27] @ name @ [CHR 0x27] @ '' is '' @ numToString fin v @ ''.'' \<and>
     (\<forall>name' v'. (isNaN v' \<or> \<not> isFinite v') \<and> error_message fin name' v' = error_message fin name v
        \<longrightarrow> name' = name \<and> v' = v)"
proof -
  from find_offending [OF assms] obtain v
    where f: "List.find (\<lambda>x. isNaN x \<or> \<not> isFinite x) vals = Some v" by blast
  then have off: "isNaN v \<or> \<not> isFinite v"
    by (auto simp: find_Some_iff)
  have inj: "\<forall>name' v'. (isNaN v' \<or> \<not> isFinite v') \<and> error_message fin name' v' = error_message fin name v
        \<longrightarrow> name' = name \<and> v' = v"
    using error_message_inj [of _ v fin _ name] off by blast
  have run: "checkComputationForErrors fin vals ''float32'' name con =
       (Inl Undefined, con @ [ConsoleError (error_message fin name v)])"
    using check_loop_find [OF f, of fin name con] by (simp add: checkComputationForErrors_def)
  have msg: "error_message fin name v =
       ''The result of the '' @ [CHR 0x27] @ name @ [CHR 0x27] @ '' is '' @ numToString fin v @ ''.''"
    by (simp add: error_message_def)
  from f run msg inj show ?thesis by blast
qed

theorem checkComputationForErrors_reports_first_witness:
  "(\<exists>x\<in>set [Fin 1, NInf, NaN]. isNaN x \<or> \<not> isFinite x) \<and>
   checkComputationForErrors (\<lambda>q. ''1'') [Fin 1, NInf, NaN] ''float32'' ''add'' [] =
     (Inl Undefined, [ConsoleError (''The result of the '' @ [CHR 0x27] @ ''add'' @ [CHR 0x27] @ '' is -Infinity.'')])"
proof -
  have h: "\<exists>x\<in>set [Fin 1, NInf, NaN]. isNaN x \<or> \<not> isFinite x" by simp
  from checkComputationForErrors_reports_first [OF h, of "\<lambda>q. ''1''" "''add''" "[]"]
  show ?thesis using h by (simp add: error_message_def)
qed

section \<open>Properties of the logger\<close>

lemma inputShapesDescription_concat:
  "inputShapesDescription fin inputs acc =
     acc @ concat (map (\<lambda>(name, t). name @ '': '' @ natToString fin (length (shape t)) @ ''D ''
                          @ (if shape t = [] then [] else shapeToString fin (shape t)) @ '' '') inputs)"
  by (induction inputs arbitrary: acc) (auto simp: Let_def)

lemma rightPad_length: "length (rightPad a n) = max n (length a)"
  by (simp add: rightPad_def)

lemma rightPad_prefix: "\<exists>k. rightPad a n = a @ replicate k CHR '' ''"
  by (auto simp: rightPad_def intro: exI [of _ 0])

lemma join_comma_Cons:
  "join_comma (map f (d # ds)) = f d @ concat (map (\<lambda>x. '','' @ f x) ds)"
  by (induction ds arbitrary: d) simp_all

lemma shapeToString_cases:
  "shapeToString fin sh =
     (case sh of [] \<Rightarrow> [] | d # ds \<Rightarrow> fin (of_nat d) @ concat (map (\<lambda>x. '','' @ fin (of_nat x)) ds))"
proof (cases sh)
  case Nil
  then show ?thesis by (simp add: shapeToString_def)
next
  case (Cons d ds)
  then show ?thesis
    using join_comma_Cons [of "natToString fin" d ds]
    by (simp add: shapeToString_def natToString_def)
qed

lemma inputShapesDescription_explicit:
  "inputShapesDescription fin inputs acc =
     acc @ concat (map (\<lambda>(n, t). n @ '': '' @ fin (of_nat (length (shape t))) @ ''D ''
                       @ (case shape t of
                            [] \<Rightarrow> []
                          | d # ds \<Rightarrow> fin (of_nat d) @ concat (map (\<lambda>x. '','' @ fin (of_nat x)) ds))
                       @ '' '')
                 inputs)"
  by (induction inputs arbitrary: acc)
     (auto simp: Let_def shapeToString_cases natToString_def split: list.splits)

lemma example_padding:
  "''add'' @ replicate (25 - length ''add'') CHR '' '' = ''add                      ''"
  "''1.234ms'' @ replicate (9 - length ''1.234ms'') CHR '' '' = ''1.234ms  ''"
  "''3,4'' @ replicate (14 - length ''3,4'') CHR '' '' = ''3,4           ''"
  by code_simp+

text \<open>
  C8: the record that \<open>logKernelProfile\<close> emits holds the kernel name padded on the right
  with spaces to at least 25 characters, the timing \<open><ms>ms\<close> padded to at least 9, the
  output shape (its dimensions separated by commas) padded to at least 14, and the input
  description, which is the concatenation, in iteration order, of one segment
  \<open><name>: <rank>D <shape> \<close> per input, the shape part being the dimensions separated by
  commas and empty for an input of rank 0; nothing stands between two segments.
\<close>

theorem logKernelProfile_record:
  "\<exists>paddedName ms time sh shapeCol description.
     logKernelProfile fin name result vals timeMs inputs extraInfo con =
       con @ [ConsoleLog
         [''%c'' @ paddedName @ [CHR 0x09] @ ''%c'' @ time @ [CHR 0x09] @ ''%c''
            @ fin (of_nat (rank result)) @ ''D '' @ shapeCol @ [CHR 0x09] @ ''%c''
            @ fin (of_nat (sizeT result)) @ [CHR 0x09] @ ''%c'' @ description @ [CHR 0x09] @ ''%c''
            @ (case extraInfo of None \<Rightarrow> ''undefined'' | Some x \<Rightarrow> x),
          ''font-weight:bold'', ''color:red'', ''color:blue'', ''color: orange'',
          ''color: green'', ''color: steelblue'']] \<and>
     paddedName = name @ replicate (25 - length name) CHR '' '' \<and>
     length paddedName = max 25 (length name) \<and>
     ms = (case timeMs of Fin q \<Rightarrow> fin q | PInf \<Rightarrow> ''Infinity'' | NInf \<Rightarrow> ''-Infinity'' | NaN \<Rightarrow> ''NaN'')
            @ ''ms'' \<and>
     time = ms @ replicate (9 - length ms) CHR '' '' \<and>
     length time = max 9 (length ms) \<and>
     sh = (case shape result of
             [] \<Rightarrow> []
           | d # ds \<Rightarrow> fin (of_nat d) @ concat (map (\<lambda>x. '','' @ fin (of_nat x)) ds)) \<and>
     shapeCol = sh @ replicate (14 - length sh) CHR '' '' \<and>
     length shapeCol = max 14 (length sh) \<and>
     description =
       concat (map (\<lambda>(n, t). n @ '': '' @ fin (of_nat (length (shape t))) @ ''D ''
                       @ (case shape t of
                            [] \<Rightarrow> []
                          | d # ds \<Rightarrow> fin (of_nat d) @ concat (map (\<lambda>x. '','' @ fin (of_nat x)) ds))
                       @ '' '')
                 inputs)"
proof -
  have pad: "\<And>a n. rightPad a n = a @ replicate (n - length a) CHR '' ''"
    by (simp add: rightPad_def)
  have num: "numToString fin timeMs =
      (case timeMs of Fin q \<Rightarrow> fin q | PInf \<Rightarrow> ''Infinity'' | NInf \<Rightarrow> ''-Infinity'' | NaN \<Rightarrow> ''NaN'')"
    by (cases timeMs) simp_all
  have seg: "inputShapesDescription fin inputs [] =
       concat (map (\<lambda>(n, t). n @ '': '' @ fin (of_nat (length (shape t))) @ ''D ''
                       @ (case shape t of
                            [] \<Rightarrow> []
                          | d # ds \<Rightarrow> fin (of_nat d) @ concat (map (\<lambda>x. '','' @ fin (of_nat x)) ds))
                       @ '' '')
                 inputs)"
    by (simp add: inputShapesDescription_explicit)
  have emitted: "logKernelProfile fin name result vals timeMs inputs extraInfo con =
       con @ [ConsoleLog
         [''%c'' @ rightPad name 25 @ [CHR 0x09] @ ''%c'' @ rightPad (numToString fin timeMs @ ''ms'') 9
            @ [CHR 0x09] @ ''%c'' @ fin (of_nat (rank result)) @ ''D ''
            @ rightPad (shapeToString fin (shape result)) 14 @ [CHR 0x09] @ ''%c''
            @ fin (of_nat (sizeT result)) @ [CHR 0x09] @ ''%c'' @ inputShapesDescription fin inputs []
            @ [CHR 0x09] @ ''%c'' @ (case extraInfo of None \<Rightarrow> ''undefined'' | Some x \<Rightarrow> x),
          ''font-weight:bold'', ''color:red'', ''color:blue'', ''color: orange'',
          ''color: green'', ''color: steelblue'']]"
    by (simp add: logKernelProfile_def natToString_def TAB_def)
  show ?thesis
    apply (rule exI [of _ "rightPad name 25"])
    apply (rule exI [of _ "numToString fin timeMs @ ''ms''"])
    apply (rule exI [of _ "rightPad (numToString fin timeMs @ ''ms'') 9"])
    apply (rule exI [of _ "shapeToString fin (shape result)"])
    apply (rule exI [of _ "rightPad (shapeToString fin (shape result)) 14"])
    apply (rule exI [of _ "inputShapesDescription fin inputs []"])
    apply (intro conjI)
             apply (rule emitted)
            apply (simp add: pad)
           apply (rule rightPad_length)
          apply (simp add: num)
         apply (simp add: pad)
        apply (rule rightPad_length)
       apply (rule shapeToString_cases)
      apply (simp add: pad)
     apply (rule rightPad_length)
    apply (rule seg)
    done
qed

theorem logKernelProfile_record_witness:
  "logKernelProfile example_fin
     ''add'' \<lparr>tensor_id = 7, dtype = ''float32'', shape = [3, 4], rank = 2, sizeT = 12\<rparr>
     [] (Fin (617 / 500))
     [(''x'', \<lparr>tensor_id = 1, dtype = ''float32'', shape = [3, 4], rank = 2, sizeT = 12\<rparr>),
      (''s'', \<lparr>tensor_id = 2, dtype = ''float32'', shape = [], rank = 0, sizeT = 1\<rparr>)]
     (Some []) [] =
   [ConsoleLog
     [''%cadd                      '' @ [CHR 0x09] @ ''%c1.234ms  '' @ [CHR 0x09]
        @ ''%c2D 3,4           '' @ [CHR 0x09] @ ''%c12'' @ [CHR 0x09] @ ''%cx: 2D 3,4 s: 0D  ''
        @ [CHR 0x09] @ ''%c'',
      ''font-weight:bold'', ''color:red'', ''color:blue'', ''color: orange'',
      ''color: green'', ''color: steelblue'']]"
proof -
  have f: "example_fin (617 / 500) = ''1.234''" "example_fin 2 = ''2''" "example_fin 3 = ''3''"
    "example_fin 4 = ''4''" "example_fin 12 = ''12''" "example_fin 0 = ''0''"
    by (simp_all add: example_fin_def)
  from logKernelProfile_record [of example_fin "''add''"
      "\<lparr>tensor_id = 7, dtype = ''float32'', shape = [3, 4], rank = 2, sizeT = 12\<rparr>"
      "[]" "Fin (617 / 500)"
      "[(''x'', \<lparr>tensor_id = 1, dtype = ''float32'', shape = [3, 4], rank = 2, sizeT = 12\<rparr>),
        (''s'', \<lparr>tensor_id = 2, dtype = ''float32'', shape = [], rank = 0, sizeT = 1\<rparr>)]"
      "Some []" "[]"]
  show ?thesis
    using example_padding by (auto simp: f)
qed

section \<open>Properties of profileKernel\<close>

lemma data_jobs_simps [simp]:
  "data_jobs [] = []"
  "data_jobs (DataThen i r v # q) = i # data_jobs q"
  "data_jobs (TimerThen i r v t # q) = data_jobs q"
  "data_jobs (q @ q') = data_jobs q @ data_jobs q'"
  by (simp_all add: data_jobs_def)

lemma timer_jobs_simps [simp]:
  "timer_jobs [] = []"
  "timer_jobs (DataThen i r v # q) = timer_jobs q"
  "timer_jobs (TimerThen i r v t # q) = i # timer_jobs q"
  "timer_jobs (q @ q') = timer_jobs q @ timer_jobs q'"
  by (simp_all add: timer_jobs_def)

lemma data_jobs_reactions [simp]:
  "data_jobs (map (\<lambda>(i, r, vals). TimerThen i r vals t) rs) = []"
  by (induction rs) auto

lemma timer_jobs_reactions [simp]:
  "timer_jobs (map (\<lambda>(i, r, vals). TimerThen i r vals t) rs) = map fst rs"
  by (induction rs) auto

lemma mem_takeWhile_snoc:
  "a \<in> set (takeWhile (\<lambda>e. e \<noteq> b) (h @ [e])) \<longleftrightarrow>
     (if b \<in> set h then a \<in> set (takeWhile (\<lambda>e. e \<noteq> b) h) else a \<in> set h \<or> (e \<noteq> b \<and> a = e))"
proof (cases "b \<in> set h")
  case True
  then have "takeWhile (\<lambda>e. e \<noteq> b) (h @ [e]) = takeWhile (\<lambda>e. e \<noteq> b) h"
    by (intro takeWhile_append1 [of b]) auto
  with True show ?thesis by simp
next
  case False
  then have "takeWhile (\<lambda>e. e \<noteq> b) (h @ [e]) = h @ takeWhile (\<lambda>e. e \<noteq> b) [e]"
    by (intro takeWhile_append2) auto
  with False show ?thesis by auto
qed

lemma check_console_logs:
  "filter (\<lambda>c. case c of ConsoleLog _ \<Rightarrow> True | _ \<Rightarrow> False) (snd (checkComputationForErrors fin vals dty name con)) =
   filter (\<lambda>c. case c of ConsoleLog _ \<Rightarrow> True | _ \<Rightarrow> False) con"
proof -
  have "\<And>con. filter (\<lambda>c. case c of ConsoleLog _ \<Rightarrow> True | _ \<Rightarrow> False) (snd (check_loop fin vals name con)) =
   filter (\<lambda>c. case c of ConsoleLog _ \<Rightarrow> True | _ \<Rightarrow> False) con"
    by (induction vals) (auto simp: ProfilerException_def)
  then show ?thesis by (simp add: checkComputationForErrors_def)
qed


lemma inv_data_resolve: "bg_inv b \<Longrightarrow> bg_inv (step fin (DataResolve i vals) b)"
  by (auto simp: bg_inv_def nth_list_update mem_takeWhile_snoc split: if_splits)

lemma inv_data_reject: "bg_inv b \<Longrightarrow> bg_inv (step fin (DataReject i) b)"
  by (auto simp: bg_inv_def nth_list_update split: if_splits)

lemma inv_timer_resolve: "bg_inv b \<Longrightarrow> bg_inv (step fin (TimerResolve t) b)"
  by (auto simp: bg_inv_def split: if_splits)

lemma inv_timer_reject: "bg_inv b \<Longrightarrow> bg_inv (step fin TimerReject b)"
  by (auto simp: bg_inv_def split: if_splits)

lemma inv_timer_then: "bg_inv b \<Longrightarrow> microtasks b = TimerThen i r vals t # js \<Longrightarrow>
   bg_inv (run_job fin (TimerThen i r vals t) (b\<lparr>microtasks := js\<rparr>))"
  by (auto simp: bg_inv_def Let_def mem_takeWhile_snoc) blast+

lemma inv_data_then: "bg_inv b \<Longrightarrow> microtasks b = DataThen i r vals # js \<Longrightarrow>
   bg_inv (run_job fin (DataThen i r vals) (b\<lparr>microtasks := js\<rparr>))"
proof -
  assume inv: "bg_inv b" "microtasks b = DataThen i r vals # js"
  obtain res con where c: "checkComputationForErrors fin vals (dtype r) (kernel_name b) (console b) = (res, con)"
    by (cases "checkComputationForErrors fin vals (dtype r) (kernel_name b) (console b)")
  show ?thesis
  proof (cases res)
    case (Inl e)
    with inv c show ?thesis
      by (auto simp: bg_inv_def mem_takeWhile_snoc)
  next
    case (Inr u)
    show ?thesis
    proof (cases "timer b")
      case Pending
      with inv c Inr show ?thesis
        by (auto simp: bg_inv_def mem_takeWhile_snoc)
    next
      case (Fulfilled t)
      with inv c Inr show ?thesis
        by (auto simp: bg_inv_def mem_takeWhile_snoc)
    next
      case Rejected
      with inv c Inr show ?thesis
        by (auto simp: bg_inv_def mem_takeWhile_snoc)
    qed
  qed
qed


lemma inv_step: "bg_inv b \<Longrightarrow> bg_inv (step fin e b)"
proof (cases e)
  case RunJob
  assume inv: "bg_inv b"
  show ?thesis
  proof (cases "microtasks b")
    case Nil
    with inv RunJob show ?thesis by simp
  next
    case (Cons j js)
    show ?thesis
    proof (cases j)
      case (DataThen i r vals)
      with inv_data_then [OF inv, of i r vals js fin] Cons RunJob show ?thesis by simp
    next
      case (TimerThen i r vals t)
      with inv_timer_then [OF inv, of i r vals t js fin] Cons RunJob show ?thesis by simp
    qed
  qed
qed (simp_all only: inv_data_resolve inv_data_reject inv_timer_resolve inv_timer_reject)

lemma inv_run: "bg_inv b \<Longrightarrow> bg_inv (run_events fin evs b)"
  unfolding run_events_def
  by (induction evs arbitrary: b) (simp_all add: inv_step)

lemma inv_init:
  "profileKernel backendTimer_time name inputs f w = (Inr res, w', Some b0) \<Longrightarrow> bg_inv b0"
  by (auto simp: profileKernel_def bg_inv_def Let_def split: prod.splits option.splits)

lemma no_timing_step:
  "no_timing b \<Longrightarrow> (case e of TimerResolve t \<Rightarrow> False | _ \<Rightarrow> True) \<Longrightarrow> no_timing (step fin e b)"
proof (cases e)
  case RunJob
  assume q: "no_timing b"
  show ?thesis
  proof (cases "microtasks b")
    case Nil
    with q RunJob show ?thesis by simp
  next
    case (Cons j js)
    with q RunJob show ?thesis
      by (cases j) (auto simp: no_timing_def is_Logged_def split: prod.splits sum.splits promise.splits)
  qed
qed (auto simp: no_timing_def is_Logged_def split: promise.splits)

lemma no_timing_run:
  "no_timing b \<Longrightarrow> list_all (\<lambda>e. case e of TimerResolve t \<Rightarrow> False | _ \<Rightarrow> True) evs \<Longrightarrow>
   no_timing (run_events fin evs b)"
  unfolding run_events_def
  by (induction evs arbitrary: b) (simp_all add: no_timing_step)

lemma no_timing_init:
  "profileKernel backendTimer_time name inputs f w = (Inr res, w', Some b0) \<Longrightarrow> no_timing b0"
  by (auto simp: profileKernel_def no_timing_def Let_def split: prod.splits option.splits)

lemma logs_step:
  "length (filter is_ConsoleLog (console b)) = length (filter is_Logged (history b)) \<Longrightarrow>
   length (filter is_ConsoleLog (console (step fin e b))) = length (filter is_Logged (history (step fin e b)))"
proof (cases e)
  case RunJob
  assume q: "length (filter is_ConsoleLog (console b)) = length (filter is_Logged (history b))"
  show ?thesis
  proof (cases "microtasks b")
    case Nil
    with q RunJob show ?thesis by simp
  next
    case (Cons j js)
    show ?thesis
    proof (cases j)
      case (DataThen i r vals)
      have "filter is_ConsoleLog (snd (checkComputationForErrors fin vals (dtype r) (kernel_name b) (console b)))
          = filter is_ConsoleLog (console b)"
        using check_console_logs [of fin vals "dtype r" "kernel_name b" "console b"]
        by (simp add: is_ConsoleLog_def [abs_def])
      with q RunJob Cons DataThen show ?thesis
        by (auto simp: is_Logged_def split: prod.splits sum.splits promise.splits)
    next
      case (TimerThen i r vals t)
      with q RunJob Cons show ?thesis
        by (simp add: is_Logged_def is_ConsoleLog_def logKernelProfile_def Let_def)
    qed
  qed
qed (auto simp: is_Logged_def)

lemma logs_run:
  "length (filter is_ConsoleLog (console b)) = length (filter is_Logged (history b)) \<Longrightarrow>
   length (filter is_ConsoleLog (console (run_events fin evs b))) =
   length (filter is_Logged (history (run_events fin evs b)))"
  unfolding run_events_def
  by (induction evs arbitrary: b) (simp_all add: logs_step)


text \<open>
  C1: if the synchronous effect of the timer is that of one call of the wrapper (made in
  some state \<open>wa\<close> of the outside, the timer returning in the state \<open>wb\<close>), then
  \<open>profileKernel\<close> returns exactly the value that \<open>f\<close> returned in that call, a single
  tensor or the sequence as it is. When it returns, no callback has run: the microtask
  queue, the console and the history are empty, so the value does not depend on whether
  materialization, validation or logging ever happen.
\<close>

theorem profileKernel_returns_thunk_value:
  assumes "backendTimer_time (holdResultWrapperFn f) (None, w) =
             (fst (holdResultWrapperFn f (None, wa)), wb)"
  shows "\<exists>b0. profileKernel backendTimer_time name inputs f w = (Inr (fst (f wa)), wb, Some b0) \<and>
           results b0 = (case fst (f wa) of Many ts \<Rightarrow> ts | Single t \<Rightarrow> [t]) \<and>
           microtasks b0 = [] \<and> console b0 = [] \<and> history b0 = []"
  using assms
  by (simp add: profileKernel_def holdResultWrapperFn_def Let_def split: prod.splits)

theorem profileKernel_returns_thunk_value_witness:
  "\<exists>b0. profileKernel (\<lambda>work s. work s) ''add'' []
     (\<lambda>w. (Many [\<lparr>tensor_id = 5, dtype = ''float32'', shape = [1], rank = 1, sizeT = 1\<rparr>], Suc w)) (0::nat) =
   (Inr (Many [\<lparr>tensor_id = 5, dtype = ''float32'', shape = [1], rank = 1, sizeT = 1\<rparr>]), 1, Some b0) \<and>
   results b0 = [\<lparr>tensor_id = 5, dtype = ''float32'', shape = [1], rank = 1, sizeT = 1\<rparr>] \<and>
   microtasks b0 = [] \<and> console b0 = [] \<and> history b0 = []"
  using profileKernel_returns_thunk_value
    [where backendTimer_time = "\<lambda>work s. work s"
       and f = "\<lambda>w::nat. (Many [\<lparr>tensor_id = 5, dtype = ''float32'', shape = [1], rank = 1, sizeT = 1\<rparr>], Suc w)"
       and w = 0 and wa = 0 and wb = 1 and name = "''add''" and inputs = "[]"]
  by (simp add: holdResultWrapperFn_def)

text \<open>
  C6: after \<open>profileKernel\<close> has returned, whatever the order in which the promises settle
  and the queued callbacks run, the logger is called for an output only after that
  output's values were materialized and its check ran (and returned); an output whose
  check threw is never logged; without a timing nothing is logged at all; and the console
  holds exactly one \<open>console.log\<close> call per logging observation.
\<close>

theorem profileKernel_logs_after_validation:
  assumes "profileKernel backendTimer_time name inputs f w = (Inr res, w', Some b0)"
      and "b = run_events fin evs b0"
  shows "(\<forall>i. Logged i \<in> set (history b) \<longrightarrow>
            Materialized i \<in> set (takeWhile (\<lambda>e. e \<noteq> Logged i) (history b)) \<and>
            Validated i True \<in> set (takeWhile (\<lambda>e. e \<noteq> Logged i) (history b))) \<and>
         (\<forall>i. Validated i False \<in> set (history b) \<longrightarrow> Logged i \<notin> set (history b)) \<and>
         ((\<forall>t. TimerResolve t \<notin> set evs) \<longrightarrow>
            (\<forall>i. Logged i \<notin> set (history b)) \<and> filter is_ConsoleLog (console b) = []) \<and>
         length (filter is_ConsoleLog (console b)) = length (filter is_Logged (history b))"
proof -
  from inv_init [OF assms(1)] have "bg_inv b"
    unfolding assms(2) by (rule inv_run)
  then have order: "\<forall>i. Logged i \<in> set (history b) \<longrightarrow>
            Materialized i \<in> set (takeWhile (\<lambda>e. e \<noteq> Logged i) (history b)) \<and>
            Validated i True \<in> set (takeWhile (\<lambda>e. e \<noteq> Logged i) (history b))"
    and failed: "\<forall>i. Validated i False \<in> set (history b) \<longrightarrow> Logged i \<notin> set (history b)"
    by (simp_all add: bg_inv_def) blast
  have "length (filter is_ConsoleLog (console b0)) = length (filter is_Logged (history b0))"
    using assms(1) by (auto simp: profileKernel_def Let_def split: prod.splits option.splits)
  then have count: "length (filter is_ConsoleLog (console b)) = length (filter is_Logged (history b))"
    unfolding assms(2) by (rule logs_run)
  have quiet: "(\<forall>i. Logged i \<notin> set (history b)) \<and> filter is_ConsoleLog (console b) = []"
    if nt: "\<forall>t. TimerResolve t \<notin> set evs"
  proof -
    from nt have "list_all (\<lambda>e. case e of TimerResolve t \<Rightarrow> False | _ \<Rightarrow> True) evs"
      by (auto simp: list_all_iff split: event.splits)
    from no_timing_run [OF no_timing_init [OF assms(1)] this, of fin]
    have e: "filter is_Logged (history b) = []"
      by (simp add: no_timing_def assms(2))
    then have "\<forall>i. Logged i \<notin> set (history b)"
      by (auto simp: filter_empty_conv is_Logged_def)
    moreover from e count have "filter is_ConsoleLog (console b) = []" by simp
    ultimately show ?thesis by simp
  qed
  from order failed quiet count show ?thesis by blast
qed


theorem profileKernel_logs_after_validation_witness:
  "\<exists>b0. profileKernel (\<lambda>work s. work s) ''add'' []
           (\<lambda>w. (Many [\<lparr>tensor_id = 1, dtype = ''float32'', shape = [1], rank = 1, sizeT = 1\<rparr>,
                        \<lparr>tensor_id = 2, dtype = ''float32'', shape = [1], rank = 1, sizeT = 1\<rparr>], w)) () =
         (Inr (Many [\<lparr>tensor_id = 1, dtype = ''float32'', shape = [1], rank = 1, sizeT = 1\<rparr>,
                     \<lparr>tensor_id = 2, dtype = ''float32'', shape = [1], rank = 1, sizeT = 1\<rparr>]), (), Some b0) \<and>
     history (run_events (\<lambda>q. ''1'')
        [DataResolve 0 [Fin 1], RunJob, TimerResolve \<lparr>kernelMs = Fin 2, getExtraProfileInfo = None\<rparr>,
         RunJob, DataResolve 1 [NaN], RunJob] b0) =
       [Materialized 0, Validated 0 True, Logged 0, Materialized 1, Validated 1 False] \<and>
     Validated 0 True \<in> set (takeWhile (\<lambda>e. e \<noteq> Logged 0) (history (run_events (\<lambda>q. ''1'')
        [DataResolve 0 [Fin 1], RunJob, TimerResolve \<lparr>kernelMs = Fin 2, getExtraProfileInfo = None\<rparr>,
         RunJob, DataResolve 1 [NaN], RunJob] b0))) \<and>
     Logged 1 \<notin> set (history (run_events (\<lambda>q. ''1'')
        [DataResolve 0 [Fin 1], RunJob, TimerResolve \<lparr>kernelMs = Fin 2, getExtraProfileInfo = None\<rparr>,
         RunJob, DataResolve 1 [NaN], RunJob] b0))"
proof -
  let ?t1 = "\<lparr>tensor_id = 1, dtype = ''float32'', shape = [1], rank = 1, sizeT = 1\<rparr>"
  let ?t2 = "\<lparr>tensor_id = 2, dtype = ''float32'', shape = [1], rank = 1, sizeT = 1\<rparr>"
  let ?b0 = "\<lparr>kernel_name = ''add'', kernel_inputs = [], results = [?t1, ?t2],
          data_promises = [Pending, Pending], timer = Pending, timer_reactions = [], microtasks = [],
          console = [], unhandled = [], history = []\<rparr>"
  let ?evs = "[DataResolve 0 [Fin 1], RunJob, TimerResolve \<lparr>kernelMs = Fin 2, getExtraProfileInfo = None\<rparr>,
         RunJob, DataResolve 1 [NaN], RunJob]"
  have h1: "profileKernel (\<lambda>work s. work s) ''add'' [] (\<lambda>w. (Many [?t1, ?t2], w)) () =
         (Inr (Many [?t1, ?t2]), (), Some ?b0)"
    by (simp add: profileKernel_def holdResultWrapperFn_def Let_def)
  have h2: "history (run_events (\<lambda>q. ''1'') ?evs ?b0) =
       [Materialized 0, Validated 0 True, Logged 0, Materialized 1, Validated 1 False]"
    by (simp add: run_events_def checkComputationForErrors_def ProfilerException_def)
  from profileKernel_logs_after_validation [OF h1 refl, of "\<lambda>q. ''1''" ?evs]
  have "Validated 0 True \<in> set (takeWhile (\<lambda>e. e \<noteq> Logged 0) (history (run_events (\<lambda>q. ''1'') ?evs ?b0)))"
    and "Logged 1 \<notin> set (history (run_events (\<lambda>q. ''1'') ?evs ?b0))"
    unfolding h2 by simp_all
  with h1 h2 show ?thesis by blast
qed


section \<open>Properties of the arithmetic\<close>

text \<open>
  The rounding steps do what they are meant to: \<open>round_half_even\<close> is within one half of
  its argument, \<open>ilog2\<close> is the binary exponent, and a finite result of \<open>round_double\<close> is a
  multiple of the spacing of the doubles at that exponent, within half that spacing of
  the exact value.
\<close>

lemma round_half_even_near: "\<bar>of_int (round_half_even x) - x\<bar> \<le> 1 / 2"
  unfolding round_half_even_def Let_def
  by (auto simp: abs_if split: if_splits) linarith+

lemma pow2_pos: "0 < pow2 k"
  by (simp add: pow2_def)

lemma pow2_Suc: "pow2 (k + 1) = 2 * pow2 k"
proof (cases "0 \<le> k")
  case True
  then show ?thesis by (simp add: pow2_def nat_add_distrib)
next
  case False
  then have "nat (- k) = Suc (nat (- (k + 1)))" by simp
  with False show ?thesis by (simp add: pow2_def)
qed

lemma of_int_pow2_le: "2 ^ n \<le> (z::int) \<Longrightarrow> (2::rat) ^ n \<le> of_int z"
proof -
  assume "2 ^ n \<le> z"
  then have "(of_int (2 ^ n) :: rat) \<le> of_int z" by (simp only: of_int_le_iff)
  then show ?thesis by simp
qed

lemma of_int_le_pow2: "(z::int) \<le> 2 ^ n \<Longrightarrow> of_int z \<le> (2::rat) ^ n"
proof -
  assume "z \<le> 2 ^ n"
  then have "(of_int z :: rat) \<le> of_int (2 ^ n)" by (simp only: of_int_le_iff)
  then show ?thesis by simp
qed

lemma ilog2_bounds:
  assumes "0 < a"
  shows "pow2 (ilog2 a) \<le> a \<and> a < pow2 (ilog2 a + 1)"
proof (cases "1 \<le> a")
  case True
  define f where "f = \<lfloor>a\<rfloor>"
  from True have f1: "1 \<le> f" by (simp add: f_def le_floor_iff)
  then have b: "2 ^ nat (bitlen f - 1) \<le> f" "f + 1 \<le> 2 ^ nat (bitlen f)"
    using bitlen_bounds [of f] by simp_all
  from f1 have bl: "1 \<le> bitlen f" by (simp add: bitlen_def floorlog_def)
  have fa: "of_int f \<le> a" "a < of_int f + 1" unfolding f_def by linarith+
  from of_int_pow2_le [OF b(1)] fa have lo: "2 ^ nat (bitlen f - 1) \<le> a" by linarith
  from of_int_le_pow2 [OF b(2)] fa have hi: "a < 2 ^ nat (bitlen f)" by simp
  from True bl lo hi show ?thesis
    by (simp add: ilog2_def pow2_def f_def [symmetric])
next
  case False
  define c where "c = \<lceil>1 / a\<rceil>"
  from False assms have inv: "1 < 1 / a" by simp
  then have c2: "2 \<le> c" unfolding c_def by (simp add: le_ceiling_iff)
  define k where "k = bitlen (c - 1)"
  from c2 have b: "2 ^ nat (k - 1) \<le> c - 1" "c \<le> 2 ^ nat k"
    using bitlen_bounds [of "c - 1"] by (simp_all add: k_def)
  from c2 have k1: "1 \<le> k" by (simp add: k_def bitlen_def floorlog_def)
  have ca: "1 / a \<le> of_int c" "of_int c - 1 < 1 / a"
    unfolding c_def by linarith+
  from of_int_le_pow2 [OF b(2)] ca have "1 / a \<le> 2 ^ nat k" by linarith
  with assms have lo: "1 / 2 ^ nat k \<le> a"
    by (simp add: field_simps)
  from of_int_pow2_le [OF b(1)] ca have "2 ^ nat (k - 1) < 1 / a" by simp
  with assms have hi: "a < 1 / 2 ^ nat (k - 1)"
    by (simp add: field_simps)
  have il: "ilog2 a = - k" using False by (simp add: ilog2_def k_def c_def)
  from k1 have p1: "pow2 (- k) = 1 / 2 ^ nat k" by (simp add: pow2_def)
  from k1 have p2: "pow2 (1 - k) = 1 / 2 ^ nat (k - 1)"
    by (cases "k = 1") (simp_all add: pow2_def)
  from lo hi show ?thesis by (simp add: il p1 p2)
qed

lemma round_double_nearest:
  assumes "round_double q = Fin v" and "q \<noteq> 0"
  shows "\<exists>m. \<bar>v\<bar> = of_int m * pow2 (max (ilog2 \<bar>q\<bar>) (- 1022) - 52) \<and>
             \<bar>v - q\<bar> \<le> pow2 (max (ilog2 \<bar>q\<bar>) (- 1022) - 52) / 2"
proof -
  define g where "g = pow2 (max (ilog2 \<bar>q\<bar>) (- 1022) - 52)"
  define m where "m = round_half_even (\<bar>q\<bar> / g)"
  have g: "0 < g" by (simp add: g_def pow2_pos)
  from assms have v: "v = (if 0 < q then of_int m * g else - (of_int m * g))"
    by (auto simp: round_double_def Let_def g_def m_def split: if_splits)
  from round_half_even_near [of "\<bar>q\<bar> / g"] have "\<bar>of_int m - \<bar>q\<bar> / g\<bar> \<le> 1 / 2"
    by (simp add: m_def)
  then have "\<bar>of_int m - \<bar>q\<bar> / g\<bar> * g \<le> 1 / 2 * g"
    using g by (intro mult_right_mono) simp_all
  moreover have "\<bar>of_int m - \<bar>q\<bar> / g\<bar> * g = \<bar>of_int m * g - \<bar>q\<bar>\<bar>"
  proof -
    have "\<bar>of_int m - \<bar>q\<bar> / g\<bar> * g = \<bar>(of_int m - \<bar>q\<bar> / g) * g\<bar>"
      using g by (simp add: abs_mult)
    also have "(of_int m - \<bar>q\<bar> / g) * g = of_int m * g - \<bar>q\<bar>"
      using g by (simp add: field_simps)
    finally show ?thesis .
  qed
  ultimately have near: "\<bar>of_int m * g - \<bar>q\<bar>\<bar> \<le> g / 2" by simp
  have m0: "0 \<le> m"
  proof -
    have "0 \<le> \<bar>q\<bar> / g" using g by simp
    then have "0 \<le> \<lfloor>\<bar>q\<bar> / g\<rfloor>" by simp
    then show ?thesis by (auto simp: m_def round_half_even_def Let_def)
  qed
  then have "(0::rat) \<le> of_int m * g" using g by simp
  with v have av: "\<bar>v\<bar> = of_int m * g" by (simp split: if_splits)
  from v near assms(2) have "\<bar>v - q\<bar> \<le> g / 2"
    by (cases "0 < q") (simp_all add: abs_if split: if_splits)
  with av show ?thesis unfolding g_def by blast
qed

text \<open>
  Two sums and quotients of doubles with their well-known results:
  \<open>0.1 + 0.2 = 0.30000000000000004\<close>, \<open>1 / 10 = 0.1\<close>, \<open>1 / 0 = Infinity\<close> and
  \<open>0 / 0 = NaN\<close>.
\<close>

lemma js_add_example:
  "js_add (Fin (3602879701896397 / 2 ^ 55)) (Fin (3602879701896397 / 2 ^ 54)) = Fin (5404319552844596 / 2 ^ 54)"
  by code_simp

lemma js_div_example:
  "js_div (Fin 1) (Fin 10) = Fin (3602879701896397 / 2 ^ 55)"
  "js_div (Fin 1) (Fin 0) = PInf"
  "js_div (Fin 0) (Fin 0) = NaN"
  by code_simp+

section \<open>Properties of the harness\<close>

lemma now_readings_append [simp]: "now_readings (a @ b) = now_readings a @ now_readings b"
  by (induction a rule: now_readings.induct) auto

lemma disposals_append [simp]: "disposals (a @ b) = disposals a @ disposals b"
  by (induction a rule: disposals.induct) auto

lemma outputs_append [simp]: "outputs (a @ b) = outputs a @ outputs b"
  by (induction a rule: outputs.induct) auto

lemma do_reps_append [simp]: "do_reps (a @ b) = do_reps a @ do_reps b"
  by (induction a rule: do_reps.induct) auto

lemma do_reps_Dispose [simp]: "do_reps (map Dispose ts) = []"
  by (induction ts) auto

lemma do_reps_DoRep [simp]: "do_reps (map (\<lambda>(r, res). DoRep r res) xs) = map fst xs"
  by (induction xs) auto

lemma now_readings_Dispose [simp]: "now_readings (map Dispose ts) = []"
  by (induction ts) auto

lemma outputs_Dispose [simp]: "outputs (map Dispose ts) = []"
  by (induction ts) auto

lemma disposals_Dispose [simp]: "disposals (map Dispose ts) = ts"
  by (induction ts) auto

lemma now_readings_DoRep [simp]: "now_readings (map (\<lambda>(r, res). DoRep r res) xs) = []"
  by (induction xs) auto

lemma disposals_DoRep [simp]: "disposals (map (\<lambda>(r, res). DoRep r res) xs) = []"
  by (induction xs) auto

lemma outputs_DoRep [simp]:
  "outputs (map (\<lambda>(r, res). DoRep r res) xs) = concat (map (\<lambda>(r, res). as_array res) xs)"
  by (induction xs) auto

lemma sequential_reps_indices: "sequential_reps doRep rs w = (xs, w') \<Longrightarrow> map fst xs = rs"
  by (induction rs arbitrary: w xs) (auto split: prod.splits)

lemma reps_loop_closed_form:
  "reps_loop doRep reps r (result, h) =
     (case sequential_reps doRep [r..<reps] (world h) of
        (xs, w') \<Rightarrow>
          (if xs = [] then result else Some (snd (last xs)),
           h\<lparr>toDispose := toDispose h @ concat (map (\<lambda>(r, res). as_array res) xs),
             world := w',
             calls := calls h @ map (\<lambda>(r, res). DoRep r res) xs\<rparr>))"
proof (induction doRep reps r "(result, h)" arbitrary: result h rule: reps_loop.induct)
  case (1 doRep reps r result h)
  show ?case
  proof (cases "r < reps")
    case False
    then show ?thesis by (simp add: reps_loop.simps)
  next
    case True
    obtain res w' where d: "doRep r (world h) = (res, w')" by (cases "doRep r (world h)")
    obtain xs w'' where s: "sequential_reps doRep [Suc r..<reps] w' = (xs, w'')"
      by (cases "sequential_reps doRep [Suc r..<reps] w'")
    from True have u: "[r..<reps] = r # [Suc r..<reps]" by (simp add: upt_conv_Cons)
    from "1" [OF True d [symmetric]] d s True u show ?thesis
      by (subst reps_loop.simps) simp
  qed
qed

lemma trial_closed_form:
  assumes "sequential_reps doRep [0..<reps] (world h) = (xs, w1)"
      and "h1 = h\<lparr>toDispose := toDispose h @ concat (map (\<lambda>(r, res). as_array res) xs),
                   world := w1, calls := calls h @ map (\<lambda>(r, res). DoRep r res) xs\<rparr>"
  shows "trial lib doRep endTrial reps h =
     (case endTrial of
        Some hook \<Rightarrow> (fst (hook w1), h1\<lparr>world := snd (hook w1), calls := calls h1 @ [EndTrial]\<rparr>)
      | None \<Rightarrow>
          (case first_output (if xs = [] then None else Some (snd (last xs))) of
             None \<Rightarrow> (RejectsWith TypeError, h1)
           | Some t \<Rightarrow>
               (fst (tensor_data lib t w1),
                h1\<lparr>world := snd (tensor_data lib t w1), calls := calls h1 @ [AwaitData t]\<rparr>)))"
  using assms
  by (simp add: trial_def reps_loop_closed_form split: option.splits prod.splits)

lemma sequential_reps_empty:
  "sequential_reps doRep [0..<reps] w = (xs, w1) \<Longrightarrow> xs = [] \<longleftrightarrow> reps = 0"
proof -
  assume "sequential_reps doRep [0..<reps] w = (xs, w1)"
  then have "map fst xs = [0..<reps]" by (rule sequential_reps_indices)
  then have "length xs = reps" by (metis length_map length_upt minus_nat.diff_0)
  then show ?thesis by auto
qed

lemma as_array_cases: "as_array res = (case res of Many ts \<Rightarrow> ts | Single t \<Rightarrow> [t])"
  by (cases res) simp_all

text \<open>
  C7: a trial calls the work of a repetition once for each index from 0 to \<open>reps - 1\<close>, in
  order, each call in the state the previous one left, and appends to \<open>toDispose\<close> every
  output it returns: all the elements of a returned array, or the single tensor returned.
  Then, with a hook, the trial awaits the hook and settles as the hook does; without one,
  it awaits \<open>data()\<close> of the last result if that is a single tensor, or of its first
  element if it is a non-empty array, and settles as that does.
\<close>

theorem trial_protocol:
  assumes "sequential_reps doRep [0..<reps] (world h) = (xs, w1)"
      and "h1 = h\<lparr>toDispose := toDispose h @
                     concat (map (\<lambda>(r, res). case res of Many ts \<Rightarrow> ts | Single t \<Rightarrow> [t]) xs),
                   world := w1, calls := calls h @ map (\<lambda>(r, res). DoRep r res) xs\<rparr>"
  shows "map fst xs = [0..<reps] \<and>
     (\<forall>hook. endTrial = Some hook \<longrightarrow>
        trial lib doRep endTrial reps h =
          (fst (hook w1), h1\<lparr>world := snd (hook w1), calls := calls h1 @ [EndTrial]\<rparr>)) \<and>
     (\<forall>t. endTrial = None \<and> xs \<noteq> [] \<and>
          (snd (last xs) = Single t \<or> (\<exists>ts. snd (last xs) = Many (t # ts))) \<longrightarrow>
        trial lib doRep endTrial reps h =
          (fst (tensor_data lib t w1),
           h1\<lparr>world := snd (tensor_data lib t w1), calls := calls h1 @ [AwaitData t]\<rparr>))"
proof -
  have h1: "h1 = h\<lparr>toDispose := toDispose h @ concat (map (\<lambda>(r, res). as_array res) xs),
                   world := w1, calls := calls h @ map (\<lambda>(r, res). DoRep r res) xs\<rparr>"
    unfolding assms(2) by (simp add: as_array_cases [abs_def])
  note cf = trial_closed_form [OF assms(1) h1]
  show ?thesis
  proof (intro conjI allI impI)
    show "map fst xs = [0..<reps]"
      using assms(1) by (rule sequential_reps_indices)
  next
    fix hook assume "endTrial = Some hook"
    then show "trial lib doRep endTrial reps h =
          (fst (hook w1), h1\<lparr>world := snd (hook w1), calls := calls h1 @ [EndTrial]\<rparr>)"
      by (simp add: cf)
  next
    fix t assume "endTrial = None \<and> xs \<noteq> [] \<and>
          (snd (last xs) = Single t \<or> (\<exists>ts. snd (last xs) = Many (t # ts)))"
    then show "trial lib doRep endTrial reps h =
          (fst (tensor_data lib t w1),
           h1\<lparr>world := snd (tensor_data lib t w1), calls := calls h1 @ [AwaitData t]\<rparr>)"
      by (auto simp: cf)
  qed
qed

theorem trial_protocol_witness:
  "trial example_lib example_doRep_pair None 2 \<lparr>toDispose = [], timesT = [], world = [], calls = []\<rparr> =
     (Fulfils,
      \<lparr>toDispose = [example_tensor 0, example_tensor 1, example_tensor 2, example_tensor 3],
       timesT = [], world = [],
       calls = [DoRep 0 (Many [example_tensor 0, example_tensor 1]),
                DoRep 1 (Many [example_tensor 2, example_tensor 3]),
                AwaitData (example_tensor 2)]\<rparr>) \<and>
   trial example_lib example_doRep None 2 \<lparr>toDispose = [], timesT = [], world = [], calls = []\<rparr> =
     (Fulfils,
      \<lparr>toDispose = [example_tensor 0, example_tensor 1], timesT = [], world = [],
       calls = [DoRep 0 (Single (example_tensor 0)), DoRep 1 (Single (example_tensor 1)),
                AwaitData (example_tensor 1)]\<rparr>) \<and>
   trial example_lib example_doRep_pair (Some example_endTrial) 2
       \<lparr>toDispose = [], timesT = [], world = [], calls = []\<rparr> =
     (Fulfils,
      \<lparr>toDispose = [example_tensor 0, example_tensor 1, example_tensor 2, example_tensor 3],
       timesT = [], world = [],
       calls = [DoRep 0 (Many [example_tensor 0, example_tensor 1]),
                DoRep 1 (Many [example_tensor 2, example_tensor 3]), EndTrial]\<rparr>)"
proof -
  let ?h = "\<lparr>toDispose = [], timesT = [], world = ([] :: jsnum list), calls = []\<rparr>"
  have u: "[0..<2] = [0, 1]" by (simp add: upt_rec)
  have seq: "sequential_reps example_doRep [0..<2] (world ?h) =
               ([(0, Single (example_tensor 0)), (1, Single (example_tensor 1))], [])"
    by (simp add: u example_doRep_def)
  have seq': "sequential_reps example_doRep_pair [0..<2] (world ?h) =
               ([(0, Many [example_tensor 0, example_tensor 1]),
                 (1, Many [example_tensor 2, example_tensor 3])], [])"
    by (simp add: u example_doRep_pair_def numeral_3_eq_3)
  from trial_protocol [OF seq' refl, of None example_lib]
  have a: "trial example_lib example_doRep_pair None 2 ?h =
     (Fulfils,
      \<lparr>toDispose = [example_tensor 0, example_tensor 1, example_tensor 2, example_tensor 3],
       timesT = [], world = [],
       calls = [DoRep 0 (Many [example_tensor 0, example_tensor 1]),
                DoRep 1 (Many [example_tensor 2, example_tensor 3]),
                AwaitData (example_tensor 2)]\<rparr>)"
    by (simp add: example_lib_def)
  from trial_protocol [OF seq refl, of None example_lib]
  have b: "trial example_lib example_doRep None 2 ?h =
     (Fulfils,
      \<lparr>toDispose = [example_tensor 0, example_tensor 1], timesT = [], world = [],
       calls = [DoRep 0 (Single (example_tensor 0)), DoRep 1 (Single (example_tensor 1)),
                AwaitData (example_tensor 1)]\<rparr>)"
    by (simp add: example_lib_def)
  from trial_protocol [OF seq' refl, of "Some example_endTrial" example_lib]
  have c: "trial example_lib example_doRep_pair (Some example_endTrial) 2 ?h =
     (Fulfils,
      \<lparr>toDispose = [example_tensor 0, example_tensor 1, example_tensor 2, example_tensor 3],
       timesT = [], world = [],
       calls = [DoRep 0 (Many [example_tensor 0, example_tensor 1]),
                DoRep 1 (Many [example_tensor 2, example_tensor 3]), EndTrial]\<rparr>)"
    by (simp add: example_endTrial_def)
  from a b c show ?thesis by simp
qed

text \<open>
  C9: without a hook, a trial with no repetition, or whose last repetition returned the
  empty array, reads a missing element: the trial is rejected with a TypeError and
  awaits nothing. With a hook nothing is read and the trial settles as the hook does.
  Without a hook, with at least one repetition and a last result that is not the empty
  array, the tensor awaited is the head of that non-empty result.
\<close>

theorem trial_completion_proxy:
  assumes "sequential_reps doRep [0..<reps] (world h) = (xs, w1)"
      and "h1 = h\<lparr>toDispose := toDispose h @ concat (map (\<lambda>(r, res). as_array res) xs),
                   world := w1, calls := calls h @ map (\<lambda>(r, res). DoRep r res) xs\<rparr>"
  shows "(endTrial = None \<and> (reps = 0 \<or> snd (last xs) = Many []) \<longrightarrow>
        trial lib doRep endTrial reps h = (RejectsWith TypeError, h1)) \<and>
     (\<forall>hook. endTrial = Some hook \<longrightarrow>
        fst (trial lib doRep endTrial reps h) = fst (hook w1) \<and>
        calls (snd (trial lib doRep endTrial reps h)) = calls h1 @ [EndTrial]) \<and>
     (endTrial = None \<and> 0 < reps \<and> snd (last xs) \<noteq> Many [] \<longrightarrow>
        (\<exists>t. as_array (snd (last xs)) \<noteq> [] \<and> t = hd (as_array (snd (last xs))) \<and>
             fst (trial lib doRep endTrial reps h) = fst (tensor_data lib t w1) \<and>
             calls (snd (trial lib doRep endTrial reps h)) = calls h1 @ [AwaitData t]))"
proof (intro conjI allI impI)
  assume a: "endTrial = None \<and> (reps = 0 \<or> snd (last xs) = Many [])"
  show "trial lib doRep endTrial reps h = (RejectsWith TypeError, h1)"
  proof (cases "xs = []")
    case True
    with a show ?thesis by (simp add: trial_closed_form [OF assms])
  next
    case False
    with a sequential_reps_empty [OF assms(1)] show ?thesis
      by (simp add: trial_closed_form [OF assms])
  qed
next
  fix hook assume "endTrial = Some hook"
  then show "fst (trial lib doRep endTrial reps h) = fst (hook w1)"
    and "calls (snd (trial lib doRep endTrial reps h)) = calls h1 @ [EndTrial]"
    by (simp_all add: trial_closed_form [OF assms])
next
  assume a: "endTrial = None \<and> 0 < reps \<and> snd (last xs) \<noteq> Many []"
  with sequential_reps_empty [OF assms(1)] have ne: "xs \<noteq> []" by simp
  show "\<exists>t. as_array (snd (last xs)) \<noteq> [] \<and> t = hd (as_array (snd (last xs))) \<and>
             fst (trial lib doRep endTrial reps h) = fst (tensor_data lib t w1) \<and>
             calls (snd (trial lib doRep endTrial reps h)) = calls h1 @ [AwaitData t]"
  proof (cases "snd (last xs)")
    case (Single t)
    with a ne show ?thesis by (simp add: trial_closed_form [OF assms])
  next
    case (Many ts)
    with a obtain t ts' where "ts = t # ts'" by (cases ts) auto
    with Many a ne show ?thesis by (simp add: trial_closed_form [OF assms])
  qed
qed

theorem trial_completion_proxy_witness:
  "trial example_lib example_doRep_empty None 1 \<lparr>toDispose = [], timesT = [], world = [], calls = []\<rparr> =
     (RejectsWith TypeError,
      \<lparr>toDispose = [], timesT = [], world = [], calls = [DoRep 0 (Many [])]\<rparr>) \<and>
   trial example_lib example_doRep None 0 \<lparr>toDispose = [], timesT = [], world = [], calls = []\<rparr> =
     (RejectsWith TypeError, \<lparr>toDispose = [], timesT = [], world = [], calls = []\<rparr>) \<and>
   fst (trial example_lib example_doRep_empty (Some example_endTrial) 1
          \<lparr>toDispose = [], timesT = [], world = [], calls = []\<rparr>) = Fulfils \<and>
   fst (trial example_lib example_doRep None 1
          \<lparr>toDispose = [], timesT = [], world = [], calls = []\<rparr>) = Fulfils"
proof -
  let ?h = "\<lparr>toDispose = [], timesT = [], world = ([] :: jsnum list), calls = []\<rparr>"
  have u: "[0..<1] = [0]" by (simp add: upt_rec)
  have seq0: "sequential_reps example_doRep [0..<0] (world ?h) = ([], [])"
    by simp
  have seq1: "sequential_reps example_doRep [0..<1] (world ?h) = ([(0, Single (example_tensor 0))], [])"
    by (simp add: u example_doRep_def)
  have seqe: "sequential_reps example_doRep_empty [0..<1] (world ?h) = ([(0, Many [])], [])"
    by (simp add: u example_doRep_empty_def)
  from trial_completion_proxy [OF seqe refl, of None example_lib]
  have a: "trial example_lib example_doRep_empty None 1 ?h =
     (RejectsWith TypeError, \<lparr>toDispose = [], timesT = [], world = [], calls = [DoRep 0 (Many [])]\<rparr>)"
    by simp
  from trial_completion_proxy [OF seq0 refl, of None example_lib]
  have b: "trial example_lib example_doRep None 0 ?h =
     (RejectsWith TypeError, \<lparr>toDispose = [], timesT = [], world = [], calls = []\<rparr>)"
    by simp
  from trial_completion_proxy [OF seqe refl, of "Some example_endTrial" example_lib]
  have c: "fst (trial example_lib example_doRep_empty (Some example_endTrial) 1 ?h) = Fulfils"
    by (simp add: example_endTrial_def)
  from trial_completion_proxy [OF seq1 refl, of None example_lib]
  have d: "fst (trial example_lib example_doRep None 1 ?h) = Fulfils"
    by (simp add: example_lib_def)
  from a b c d show ?thesis by simp
qed

lemma trial_calls:
  assumes "trial lib doRep endTrial reps h = (s, h2)"
  shows "\<exists>cs. calls h2 = calls h @ cs \<and> now_readings cs = [] \<and> disposals cs = [] \<and>
           do_reps cs = [0..<reps] \<and>
           toDispose h2 = toDispose h @ outputs cs \<and> timesT h2 = timesT h"
proof -
  obtain xs w1 where seq: "sequential_reps doRep [0..<reps] (world h) = (xs, w1)"
    by (cases "sequential_reps doRep [0..<reps] (world h)")
  note cf = trial_closed_form [OF seq refl, of lib endTrial]
  note ix = sequential_reps_indices [OF seq]
  show ?thesis
  proof (cases endTrial)
    case (Some hook)
    with cf ix assms show ?thesis
      by (intro exI [of _ "map (\<lambda>(r, res). DoRep r res) xs @ [EndTrial]"]) auto
  next
    case None
    show ?thesis
    proof (cases "first_output (if xs = [] then None else Some (snd (last xs)))")
      case N: None
      with cf ix assms None show ?thesis
        by (intro exI [of _ "map (\<lambda>(r, res). DoRep r res) xs"]) auto
    next
      case (Some t)
      with cf ix assms None show ?thesis
        by (intro exI [of _ "map (\<lambda>(r, res). DoRep r res) xs @ [AwaitData t]"]) auto
    qed
  qed
qed

lemma trials_loop_log:
  "trials_loop lib doRep endTrial d trials reps t h = (s, h') \<Longrightarrow>
    \<exists>rest. calls h' = calls h @ rest \<and>
       (s = Fulfils \<longrightarrow> timesT h' = timesT h @ pair_diffs (now_readings rest) \<and>
                      length (timesT h') = length (timesT h) + (trials - t)) \<and>
       (s = Fulfils \<longrightarrow> do_reps rest = concat (replicate (trials - t) [0..<reps])) \<and>
       (t < trials \<longrightarrow> (\<exists>v rest'. rest = Now v # rest')) \<and>
       (\<not> d \<longrightarrow> disposals rest = [] \<and> toDispose h' = toDispose h @ outputs rest)"
proof (induction lib doRep endTrial d trials reps t h arbitrary: s h' rule: trials_loop.induct)
  case (1 lib doRep endTrial d trials reps t h)
  show ?case
  proof (cases "t < trials")
    case False
    with "1.prems" show ?thesis
      by (intro exI [of _ "[]"]) (simp add: trials_loop.simps)
  next
    case True
    obtain start w1 where n1: "util_now lib (world h) = (start, w1)"
      by (cases "util_now lib (world h)")
    obtain s2 h2 where tr:
      "trial lib doRep endTrial reps (h\<lparr>world := w1, calls := calls h @ [Now start]\<rparr>) = (s2, h2)"
      by (cases "trial lib doRep endTrial reps (h\<lparr>world := w1, calls := calls h @ [Now start]\<rparr>)")
    from trial_calls [OF tr] obtain cs where cs:
      "calls h2 = calls h @ Now start # cs" "now_readings cs = []" "disposals cs = []"
      "toDispose h2 = toDispose h @ outputs cs" "timesT h2 = timesT h" "do_reps cs = [0..<reps]"
      by auto
    show ?thesis
    proof (cases "s2 = Fulfils")
      case False
      with "1.prems" True n1 tr have "s = s2" "h' = h2"
        by (auto simp: trials_loop.simps [of lib doRep endTrial d trials reps t h]
            split: settlement.splits)
      with False cs True show ?thesis
        by (intro exI [of _ "Now start # cs"]) simp
    next
      case ful: True
      obtain stop w3 where n2: "util_now lib (world h2) = (stop, w3)"
        by (cases "util_now lib (world h2)")
      define h3 where "h3 = h2\<lparr>timesT := timesT h2 @ [js_sub stop start], world := w3,
                                 calls := calls h2 @ [Now stop]\<rparr>"
      define h4 where "h4 = (if d then dispose lib h3 else h3)"
      from "1.prems" True n1 tr ful n2
      have rec: "trials_loop lib doRep endTrial d trials reps (Suc t) h4 = (s, h')"
        by (auto simp: trials_loop.simps [of lib doRep endTrial d trials reps t h] h3_def h4_def Let_def)
      from "1.IH" [OF True n1 [symmetric] tr [symmetric] ful n2 [symmetric] h3_def h4_def rec]
      obtain rest where rest:
        "calls h' = calls h4 @ rest"
        "s = Fulfils \<longrightarrow> timesT h' = timesT h4 @ pair_diffs (now_readings rest) \<and>
                      length (timesT h') = length (timesT h4) + (trials - Suc t)"
        "s = Fulfils \<longrightarrow> do_reps rest = concat (replicate (trials - Suc t) [0..<reps])"
        "\<not> d \<longrightarrow> disposals rest = [] \<and> toDispose h' = toDispose h4 @ outputs rest"
        by blast
      have c4: "calls h4 = calls h @ Now start # cs @ Now stop # (if d then map Dispose (toDispose h3) else [])"
        and t4: "timesT h4 = timesT h @ [js_sub stop start]"
        and d4: "\<not> d \<longrightarrow> toDispose h4 = toDispose h @ outputs cs"
        using cs by (auto simp: h4_def h3_def dispose_def)
      from True have st: "trials - t = Suc (trials - Suc t)" by simp
      show ?thesis
        apply (rule exI [of _ "Now start # cs @ Now stop # (if d then map Dispose (toDispose h3) else []) @ rest"])
        using rest c4 t4 d4 cs True st by auto
    qed
  qed
qed

lemma time_cases:
  assumes "time lib toFixed doRep endTrial d_arg trials_arg reps_arg w = (s, hf, sm)"
      and "trial lib doRep endTrial (case reps_arg of None \<Rightarrow> 1 | Some n \<Rightarrow> n)
             \<lparr>toDispose = [], timesT = [], world = w, calls = []\<rparr> = (Fulfils, h1)"
  shows "trials_loop lib doRep endTrial (case d_arg of None \<Rightarrow> False | Some b \<Rightarrow> b)
           (case trials_arg of None \<Rightarrow> 50 | Some n \<Rightarrow> n)
           (case reps_arg of None \<Rightarrow> 1 | Some n \<Rightarrow> n) 0 (dispose lib h1) = (s, hf)"
    and "s = Fulfils \<Longrightarrow>
           \<exists>m. sm = Some m \<and>
             mean m = js_div (foldl js_add (Fin 0) (timesT hf))
                        (Fin (of_nat (case trials_arg of None \<Rightarrow> 50 | Some n \<Rightarrow> n))) \<and>
             minT m = Math_min (timesT hf)"
  using assms
  by (auto simp: time_def Let_def split: prod.splits settlement.splits)

lemma time_completed:
  assumes "time lib toFixed doRep endTrial d_arg trials_arg reps_arg w = (Fulfils, hf, sm)"
  shows "\<exists>h1. trial lib doRep endTrial (case reps_arg of None \<Rightarrow> 1 | Some n \<Rightarrow> n)
             \<lparr>toDispose = [], timesT = [], world = w, calls = []\<rparr> = (Fulfils, h1)"
  using assms
  by (auto simp: time_def Let_def split: prod.splits settlement.splits)

lemma trials_loop_split:
  "trials_loop lib doRep endTrial d k reps t h = (sk, hk) \<Longrightarrow> k \<le> n \<Longrightarrow>
   trials_loop lib doRep endTrial d n reps t h =
     (if sk = Fulfils then trials_loop lib doRep endTrial d n reps (max t k) hk else (sk, hk))"
proof (induction lib doRep endTrial d k reps t h arbitrary: sk hk rule: trials_loop.induct)
  case (1 lib doRep endTrial d k reps t h)
  show ?case
  proof (cases "t < k")
    case False
    with "1.prems" show ?thesis
      by (simp add: trials_loop.simps [of lib doRep endTrial d k reps t h] max_def)
  next
    case True
    with "1.prems" have tn: "t < n" by simp
    obtain start w1 where n1: "util_now lib (world h) = (start, w1)"
      by (cases "util_now lib (world h)")
    obtain s2 h2 where tr:
      "trial lib doRep endTrial reps (h\<lparr>world := w1, calls := calls h @ [Now start]\<rparr>) = (s2, h2)"
      by (cases "trial lib doRep endTrial reps (h\<lparr>world := w1, calls := calls h @ [Now start]\<rparr>)")
    show ?thesis
    proof (cases "s2 = Fulfils")
      case False
      with "1.prems" True tn n1 tr show ?thesis
        by (auto simp: trials_loop.simps [of lib doRep endTrial d k reps t h]
            trials_loop.simps [of lib doRep endTrial d n reps t h]
            split: settlement.splits)
    next
      case ful: True
      obtain stop w3 where n2: "util_now lib (world h2) = (stop, w3)"
        by (cases "util_now lib (world h2)")
      define h3 where "h3 = h2\<lparr>timesT := timesT h2 @ [js_sub stop start], world := w3,
                                 calls := calls h2 @ [Now stop]\<rparr>"
      define h4 where "h4 = (if d then dispose lib h3 else h3)"
      from "1.prems" True n1 tr ful n2
      have reck: "trials_loop lib doRep endTrial d k reps (Suc t) h4 = (sk, hk)"
        by (auto simp: trials_loop.simps [of lib doRep endTrial d k reps t h] h3_def h4_def Let_def)
      from tn n1 tr ful n2
      have recn: "trials_loop lib doRep endTrial d n reps t h =
                  trials_loop lib doRep endTrial d n reps (Suc t) h4"
        by (auto simp: trials_loop.simps [of lib doRep endTrial d n reps t h] h3_def h4_def Let_def)
      from True have m: "max (Suc t) k = max t k" by simp
      from "1.IH" [OF True n1 [symmetric] tr [symmetric] ful n2 [symmetric] h3_def h4_def reck "1.prems"(2)]
      show ?thesis by (simp add: recn m)
    qed
  qed
qed

lemma foldl_js_min2_Fin:
  "\<exists>m. foldl js_min2 (Fin a) (map Fin qs) = Fin m \<and> m \<in> insert a (set qs) \<and> m \<le> a \<and> (\<forall>q\<in>set qs. m \<le> q)"
proof (induction qs arbitrary: a)
  case Nil
  then show ?case by simp
next
  case (Cons q qs)
  from Cons [of "min a q"] obtain m where
    "foldl js_min2 (Fin (min a q)) (map Fin qs) = Fin m" "m \<in> insert (min a q) (set qs)"
    "m \<le> min a q" "\<forall>x\<in>set qs. m \<le> x"
    by blast
  then show ?case
    by (intro exI [of _ m]) (auto simp: min_def split: if_splits)
qed

lemma Math_min_Fin:
  "qs \<noteq> [] \<Longrightarrow> \<exists>m. Math_min (map Fin qs) = Fin m \<and> m \<in> set qs \<and> (\<forall>q\<in>set qs. m \<le> q)"
proof (cases qs)
  case Nil
  assume "qs \<noteq> []"
  with Nil show ?thesis by simp
next
  case (Cons q qs')
  from foldl_js_min2_Fin [of q qs'] obtain m where
    "foldl js_min2 (Fin q) (map Fin qs') = Fin m" "m \<in> insert q (set qs')" "m \<le> q" "\<forall>x\<in>set qs'. m \<le> x"
    by blast
  with Cons show ?thesis
    by (intro exI [of _ m]) (auto simp: Math_min_def)
qed

lemma least_times_length_le_sum:
  fixes m :: rat
  shows "\<forall>q\<in>set qs. m \<le> q \<Longrightarrow> of_nat (length qs) * m \<le> sum_list qs"
  by (induction qs) (auto simp: algebra_simps)

lemma least_le_average:
  fixes m :: rat
  assumes "\<forall>q\<in>set qs. m \<le> q" and "qs \<noteq> []"
  shows "m \<le> sum_list qs / of_nat (length qs)"
proof -
  from assms(2) have pos: "(0::rat) < of_nat (length qs)" by simp
  from least_times_length_le_sum [OF assms(1)] have "m * of_nat (length qs) \<le> sum_list qs"
    by (simp add: mult.commute)
  with pos show ?thesis by (simp add: pos_le_divide_eq)
qed

lemma sequential_reps_results:
  "sequential_reps doRep rs w = (xs, w') \<Longrightarrow> \<forall>r w. as_array (fst (doRep r w)) \<noteq> [] \<Longrightarrow>
   \<forall>x\<in>set xs. as_array (snd x) \<noteq> []"
proof (induction rs arbitrary: w xs w')
  case Nil
  then show ?case by simp
next
  case (Cons r rs)
  obtain res w1 where d: "doRep r w = (res, w1)" by (cases "doRep r w")
  obtain ys w2 where s: "sequential_reps doRep rs w1 = (ys, w2)"
    by (cases "sequential_reps doRep rs w1")
  from Cons.prems(2) d have "as_array res \<noteq> []" by (metis fst_conv)
  moreover from Cons.IH [OF s Cons.prems(2)] have "\<forall>x\<in>set ys. as_array (snd x) \<noteq> []" .
  moreover from Cons.prems(1) d s have "xs = (r, res) # ys" by simp
  ultimately show ?case by simp
qed

lemma trial_fulfils:
  assumes "awaits_fulfil lib doRep endTrial reps"
  shows "fst (trial lib doRep endTrial reps h) = Fulfils"
proof -
  obtain xs w1 where seq: "sequential_reps doRep [0..<reps] (world h) = (xs, w1)"
    by (cases "sequential_reps doRep [0..<reps] (world h)")
  note cf = trial_closed_form [OF seq refl, of lib endTrial]
  show ?thesis
  proof (cases endTrial)
    case (Some hook)
    with assms cf show ?thesis by (simp add: awaits_fulfil_def)
  next
    case None
    with assms have a: "0 < reps" "\<forall>r w. as_array (fst (doRep r w)) \<noteq> []"
      "\<forall>t w. fst (tensor_data lib t w) = Fulfils"
      by (simp_all add: awaits_fulfil_def)
    from a(1) sequential_reps_empty [OF seq] have ne: "xs \<noteq> []" by simp
    with sequential_reps_results [OF seq a(2)] have "as_array (snd (last xs)) \<noteq> []" by simp
    then obtain t where "first_output (Some (snd (last xs))) = Some t"
      by (cases "snd (last xs)") (auto simp: neq_Nil_conv)
    with cf None ne a(3) show ?thesis by simp
  qed
qed

lemma trials_loop_fulfils:
  "awaits_fulfil lib doRep endTrial reps \<Longrightarrow>
   fst (trials_loop lib doRep endTrial d trials reps t h) = Fulfils"
proof (induction lib doRep endTrial d trials reps t h rule: trials_loop.induct)
  case (1 lib doRep endTrial d trials reps t h)
  show ?case
  proof (cases "t < trials")
    case False
    then show ?thesis by (simp add: trials_loop.simps [of lib doRep endTrial d trials reps t h])
  next
    case True
    obtain start w1 where n1: "util_now lib (world h) = (start, w1)"
      by (cases "util_now lib (world h)")
    obtain s2 h2 where tr:
      "trial lib doRep endTrial reps (h\<lparr>world := w1, calls := calls h @ [Now start]\<rparr>) = (s2, h2)"
      by (cases "trial lib doRep endTrial reps (h\<lparr>world := w1, calls := calls h @ [Now start]\<rparr>)")
    from trial_fulfils [OF "1.prems", of "h\<lparr>world := w1, calls := calls h @ [Now start]\<rparr>"] tr
    have ful: "s2 = Fulfils" by simp
    obtain stop w3 where n2: "util_now lib (world h2) = (stop, w3)"
      by (cases "util_now lib (world h2)")
    define h3 where "h3 = h2\<lparr>timesT := timesT h2 @ [js_sub stop start], world := w3,
                               calls := calls h2 @ [Now stop]\<rparr>"
    define h4 where "h4 = (if d then dispose lib h3 else h3)"
    from True n1 tr ful n2
    have rec: "trials_loop lib doRep endTrial d trials reps t h =
               trials_loop lib doRep endTrial d trials reps (Suc t) h4"
      by (auto simp: trials_loop.simps [of lib doRep endTrial d trials reps t h] h3_def h4_def Let_def)
    from "1.IH" [OF True n1 [symmetric] tr [symmetric] ful n2 [symmetric] h3_def h4_def "1.prems"]
    show ?thesis by (simp add: rec)
  qed
qed

lemma time_fulfils:
  assumes "awaits_fulfil lib doRep endTrial (case reps_arg of None \<Rightarrow> 1 | Some n \<Rightarrow> n)"
  shows "\<exists>hf m. time lib toFixed doRep endTrial d_arg trials_arg reps_arg w = (Fulfils, hf, Some m)"
proof -
  let ?reps = "case reps_arg of None \<Rightarrow> 1 | Some n \<Rightarrow> n"
  let ?h0 = "\<lparr>toDispose = [], timesT = [], world = w, calls = []\<rparr>"
  obtain s1 h1 where t1: "trial lib doRep endTrial ?reps ?h0 = (s1, h1)"
    by (cases "trial lib doRep endTrial ?reps ?h0")
  with trial_fulfils [OF assms, of ?h0] have s1: "s1 = Fulfils" by simp
  obtain s2 h2 where t2: "trials_loop lib doRep endTrial (case d_arg of None \<Rightarrow> False | Some b \<Rightarrow> b)
       (case trials_arg of None \<Rightarrow> 50 | Some n \<Rightarrow> n) ?reps 0 (dispose lib h1) = (s2, h2)"
    by (cases "trials_loop lib doRep endTrial (case d_arg of None \<Rightarrow> False | Some b \<Rightarrow> b)
       (case trials_arg of None \<Rightarrow> 50 | Some n \<Rightarrow> n) ?reps 0 (dispose lib h1)")
  with trials_loop_fulfils [OF assms, of "case d_arg of None \<Rightarrow> False | Some b \<Rightarrow> b"
      "case trials_arg of None \<Rightarrow> 50 | Some n \<Rightarrow> n" 0 "dispose lib h1"]
  have s2: "s2 = Fulfils" by simp
  from t1 s1 t2 s2 show ?thesis
    by (simp add: time_def Let_def)
qed

lemma example_run:
  "time example_lib toFixed example_doRep None d_arg (Some 3) None [a0, a1, a2, a3, a4, a5] =
     (Fulfils,
      \<lparr>toDispose = (if d_arg = Some True then [] else [example_tensor 0, example_tensor 0, example_tensor 0]),
       timesT = [js_sub a1 a0, js_sub a3 a2, js_sub a5 a4],
       world = [],
       calls = [DoRep 0 (Single (example_tensor 0)), AwaitData (example_tensor 0), Dispose (example_tensor 0),
                Now a0, DoRep 0 (Single (example_tensor 0)), AwaitData (example_tensor 0), Now a1]
               @ (if d_arg = Some True then [Dispose (example_tensor 0)] else [])
               @ [Now a2, DoRep 0 (Single (example_tensor 0)), AwaitData (example_tensor 0), Now a3]
               @ (if d_arg = Some True then [Dispose (example_tensor 0)] else [])
               @ [Now a4, DoRep 0 (Single (example_tensor 0)), AwaitData (example_tensor 0), Now a5]
               @ (if d_arg = Some True then [Dispose (example_tensor 0)] else [])\<rparr>,
      Some \<lparr>mean = js_div (js_add (js_add (js_add (Fin 0) (js_sub a1 a0)) (js_sub a3 a2)) (js_sub a5 a4)) (Fin 3),
            minT = js_min2 (js_min2 (js_min2 PInf (js_sub a1 a0)) (js_sub a3 a2)) (js_sub a5 a4),
            printed =
              [ConsoleLog [''Mean time: '' @ toFixed (js_div (js_add (js_add (js_add (Fin 0) (js_sub a1 a0)) (js_sub a3 a2)) (js_sub a5 a4)) (Fin 3)) 3
                 @ '' ms -> '' @ toFixed (js_div (js_div (js_add (js_add (js_add (Fin 0) (js_sub a1 a0)) (js_sub a3 a2)) (js_sub a5 a4)) (Fin 3)) (Fin 1)) 3 @ '' / rep''],
               ConsoleLog [''Min time: '' @ toFixed (js_min2 (js_min2 (js_min2 PInf (js_sub a1 a0)) (js_sub a3 a2)) (js_sub a5 a4)) 3
                 @ '' ms -> '' @ toFixed (js_div (js_min2 (js_min2 (js_min2 PInf (js_sub a1 a0)) (js_sub a3 a2)) (js_sub a5 a4)) (Fin 1)) 3 @ '' / rep'']]\<rparr>)"
  by (cases d_arg)
    (simp_all add: time_def trials_loop.simps trial_def reps_loop.simps dispose_def example_lib_def
      example_doRep_def Math_min_def Let_def)

lemma Fin_list_nonempty_times:
  "timesT hf = map Fin qs \<Longrightarrow> length (timesT hf) = trials \<Longrightarrow> 1 \<le> trials \<Longrightarrow> qs \<noteq> [] \<and> length qs = trials"
  by auto

text \<open>
  C4, as amended: a completed call of \<open>time\<close> with \<open>trials \<ge> 1\<close> has recorded exactly
  \<open>trials\<close> durations; \<open>mean\<close> is the floating-point quotient by \<open>trials\<close> of their
  floating-point sum taken from left to right, and \<open>min\<close> is \<open>Math.min\<close> of them, which
  is their least element when all are finite. When that sum and that quotient are
  computed without rounding error, \<open>min <= mean\<close>.
\<close>

theorem time_statistics:
  assumes "time lib toFixed doRep endTrial d_arg trials_arg reps_arg w = (Fulfils, hf, sm)"
      and "trials = (case trials_arg of None \<Rightarrow> 50 | Some n \<Rightarrow> n)"
      and "1 \<le> trials"
  shows "\<exists>m. sm = Some m \<and> length (timesT hf) = trials \<and>
           mean m = js_div (foldl js_add (Fin 0) (timesT hf)) (Fin (of_nat trials)) \<and>
           minT m = Math_min (timesT hf) \<and>
           (\<forall>qs. timesT hf = map Fin qs \<longrightarrow>
              (\<exists>q. minT m = Fin q \<and> q \<in> set qs \<and> (\<forall>x\<in>set qs. q \<le> x)) \<and>
              (foldl js_add (Fin 0) (map Fin qs) = Fin (sum_list qs) \<and>
               js_div (Fin (sum_list qs)) (Fin (of_nat trials)) = Fin (sum_list qs / of_nat trials) \<longrightarrow>
                 mean m = Fin (sum_list qs / of_nat trials) \<and> js_le (minT m) (mean m)))"
proof -
  from time_completed [OF assms(1)] obtain h1 where
    w: "trial lib doRep endTrial (case reps_arg of None \<Rightarrow> 1 | Some n \<Rightarrow> n)
             \<lparr>toDispose = [], timesT = [], world = w, calls = []\<rparr> = (Fulfils, h1)"
    by blast
  note tc = time_cases [OF assms(1) w]
  from tc(2) obtain m where m: "sm = Some m"
    "mean m = js_div (foldl js_add (Fin 0) (timesT hf)) (Fin (of_nat trials))"
    "minT m = Math_min (timesT hf)"
    unfolding assms(2) by blast
  from trial_calls [OF w] have "timesT h1 = []" by auto
  with trials_loop_log [OF tc(1)] have len: "length (timesT hf) = trials"
    by (auto simp: assms(2) dispose_def)
  have fin: "(\<exists>q. minT m = Fin q \<and> q \<in> set qs \<and> (\<forall>x\<in>set qs. q \<le> x)) \<and>
              (foldl js_add (Fin 0) (map Fin qs) = Fin (sum_list qs) \<and>
               js_div (Fin (sum_list qs)) (Fin (of_nat trials)) = Fin (sum_list qs / of_nat trials) \<longrightarrow>
                 mean m = Fin (sum_list qs / of_nat trials) \<and> js_le (minT m) (mean m))"
    if q: "timesT hf = map Fin qs" for qs
  proof -
    from Fin_list_nonempty_times [OF q len assms(3)] have ne: "qs \<noteq> []" and lq: "length qs = trials"
      by simp_all
    from Math_min_Fin [OF ne] obtain q where
      mq: "Math_min (map Fin qs) = Fin q" "q \<in> set qs" "\<forall>x\<in>set qs. q \<le> x"
      by blast
    from least_le_average [OF mq(3) ne] lq have "q \<le> sum_list qs / of_nat trials" by simp
    with mq m(2,3) q show ?thesis by auto
  qed
  from m len fin show ?thesis by blast
qed

lemma exact_round:
  "round_double 1 = Fin 1" "round_double 2 = Fin 2" "round_double 3 = Fin 3" "round_double 6 = Fin 6"
  by code_simp+

theorem time_statistics_witness:
  "\<exists>hf m. time example_lib example_toFixed example_doRep None None (Some 3) None
            [Fin 0, Fin 1, Fin 1, Fin 3, Fin 3, Fin 6] = (Fulfils, hf, Some m) \<and>
          timesT hf = [Fin 1, Fin 2, Fin 3] \<and> mean m = Fin 2 \<and> minT m = Fin 1 \<and>
          js_le (minT m) (mean m)"
proof -
  let ?run = "time example_lib example_toFixed example_doRep None None (Some 3) None
            [Fin 0, Fin 1, Fin 1, Fin 3, Fin 3, Fin 6]"
  obtain hf sm where run: "?run = (Fulfils, hf, sm)"
    by (simp add: example_run)
  then have ts: "timesT hf = map Fin [1, 2, 3]"
    by (auto simp: example_run exact_round)
  from time_statistics [OF run, of 3] obtain m where m: "sm = Some m"
    "mean m = js_div (foldl js_add (Fin 0) (timesT hf)) (Fin (of_nat 3))"
    "\<forall>qs. timesT hf = map Fin qs \<longrightarrow>
              (\<exists>q. minT m = Fin q \<and> q \<in> set qs \<and> (\<forall>x\<in>set qs. q \<le> x)) \<and>
              (foldl js_add (Fin 0) (map Fin qs) = Fin (sum_list qs) \<and>
               js_div (Fin (sum_list qs)) (Fin (of_nat 3)) = Fin (sum_list qs / of_nat 3) \<longrightarrow>
                 mean m = Fin (sum_list qs / of_nat 3) \<and> js_le (minT m) (mean m))"
    by auto
  have f1: "foldl js_add (Fin 0) (map Fin [1, 2, 3]) = Fin (sum_list [1, 2, 3])"
    by (simp add: exact_round)
  have f2: "js_div (Fin (sum_list [1, 2, 3])) (Fin (of_nat 3)) = Fin (sum_list [1, 2, 3] / of_nat 3)"
    by (simp add: exact_round)
  from m(3) [rule_format, OF ts] f1 f2
  have "mean m = Fin (sum_list [1, 2, 3] / of_nat 3) \<and> js_le (minT m) (mean m)"
    by blast
  then have me: "mean m = Fin 2" and le: "js_le (minT m) (mean m)"
    by auto
  from run m(1) have "minT m = Fin 1"
    by (auto simp: example_run exact_round)
  with run m(1) ts le me show ?thesis by auto
qed

lemma rounded_steps:
  "js_sub (Fin (6004799503160662 / 2 ^ 52)) (Fin 0) = Fin (6004799503160662 / 2 ^ 52)"
  "js_sub (Fin (6004799503160662 / 2 ^ 51)) (Fin (6004799503160662 / 2 ^ 52)) = Fin (6004799503160662 / 2 ^ 52)"
  "js_sub (Fin (4503599627370497 / 2 ^ 50)) (Fin (6004799503160663 / 2 ^ 51)) = Fin (6004799503160662 / 2 ^ 52)"
  "js_add (Fin 0) (Fin (6004799503160662 / 2 ^ 52)) = Fin (6004799503160662 / 2 ^ 52)"
  "js_add (Fin (6004799503160662 / 2 ^ 52)) (Fin (6004799503160662 / 2 ^ 52)) = Fin (6004799503160662 / 2 ^ 51)"
  "js_add (Fin (6004799503160662 / 2 ^ 51)) (Fin (6004799503160662 / 2 ^ 52)) = Fin 4"
  "js_div (Fin 4) (Fin 3) = Fin (6004799503160661 / 2 ^ 52)"
  by code_simp+

lemma least_of_equal:
  "js_min2 (js_min2 (js_min2 PInf (Fin a)) (Fin a)) (Fin a) = Fin a"
  by simp

lemma example_mean_below: "\<not> js_le (Fin (6004799503160662 / 2 ^ 52)) (Fin (6004799503160661 / 2 ^ 52))"
  by simp

text \<open>
  C4 as stated fails, because every addition and the division round. With the clock
  readings 0, d, d, 2d, 2d + 2^-51, 3d + 2^-51, where d = 6004799503160662 / 2^52
  (the double 1.3333333333333335), the three durations all equal d; their sum 3d is not
  a double and rounds to 4; 4 / 3 rounds to 6004799503160661 / 2^52
  (1.3333333333333333), so the mean is below the minimum.
\<close>

theorem time_mean_below_min:
  "fst (time example_lib example_toFixed example_doRep None None (Some 3) None
          [Fin 0, Fin (6004799503160662 / 2 ^ 52), Fin (6004799503160662 / 2 ^ 52),
           Fin (6004799503160662 / 2 ^ 51), Fin (6004799503160663 / 2 ^ 51),
           Fin (4503599627370497 / 2 ^ 50)]) = Fulfils \<and>
   timesT (fst (snd (time example_lib example_toFixed example_doRep None None (Some 3) None
          [Fin 0, Fin (6004799503160662 / 2 ^ 52), Fin (6004799503160662 / 2 ^ 52),
           Fin (6004799503160662 / 2 ^ 51), Fin (6004799503160663 / 2 ^ 51),
           Fin (4503599627370497 / 2 ^ 50)]))) =
     [Fin (6004799503160662 / 2 ^ 52), Fin (6004799503160662 / 2 ^ 52), Fin (6004799503160662 / 2 ^ 52)] \<and>
   map_option mean (snd (snd (time example_lib example_toFixed example_doRep None None (Some 3) None
          [Fin 0, Fin (6004799503160662 / 2 ^ 52), Fin (6004799503160662 / 2 ^ 52),
           Fin (6004799503160662 / 2 ^ 51), Fin (6004799503160663 / 2 ^ 51),
           Fin (4503599627370497 / 2 ^ 50)]))) = Some (Fin (6004799503160661 / 2 ^ 52)) \<and>
   map_option minT (snd (snd (time example_lib example_toFixed example_doRep None None (Some 3) None
          [Fin 0, Fin (6004799503160662 / 2 ^ 52), Fin (6004799503160662 / 2 ^ 52),
           Fin (6004799503160662 / 2 ^ 51), Fin (6004799503160663 / 2 ^ 51),
           Fin (4503599627370497 / 2 ^ 50)]))) = Some (Fin (6004799503160662 / 2 ^ 52)) \<and>
   \<not> js_le (Fin (6004799503160662 / 2 ^ 52)) (Fin (6004799503160661 / 2 ^ 52))"
  unfolding example_run
  by (simp only: fst_conv snd_conv option.map harness.select_convs summary.select_convs
      rounded_steps least_of_equal example_mean_below simp_thms)

lemma warm_up_rejected:
  assumes "time lib toFixed doRep endTrial d_arg trials_arg reps_arg w = (s, hf, sm)"
      and "trial lib doRep endTrial (case reps_arg of None \<Rightarrow> 1 | Some n \<Rightarrow> n)
             \<lparr>toDispose = [], timesT = [], world = w, calls = []\<rparr> = (s1, h1)"
      and "s1 \<noteq> Fulfils"
  shows "s = s1 \<and> hf = h1 \<and> sm = None"
  using assms
  by (cases s1) (auto simp: time_def Let_def)

lemma trial_toDispose:
  assumes "trial lib doRep endTrial reps h = (s, h2)"
      and "sequential_reps doRep [0..<reps] (world h) = (xs, w1)"
  shows "toDispose h2 = toDispose h @
           concat (map (\<lambda>(r, res). case res of Many ts \<Rightarrow> ts | Single t \<Rightarrow> [t]) xs)"
proof -
  note cf = trial_closed_form [OF assms(2) refl, of lib endTrial]
  have "toDispose h2 = toDispose h @ concat (map (\<lambda>(r, res). as_array res) xs)"
    using cf assms(1) by (auto split: option.splits)
  then show ?thesis by (simp add: as_array_cases [abs_def])
qed

lemma tracking_run:
  "time tracking_lib toFixed tracking_doRep None None (Some 3) (Some 2)
       \<lparr>clock = [a0, a1, a2, a3, a4, a5], allocated = 0, disposed = []\<rparr> =
     (Fulfils,
      \<lparr>toDispose = [example_tensor 2, example_tensor 3, example_tensor 4, example_tensor 5,
                    example_tensor 6, example_tensor 7],
       timesT = [js_sub a1 a0, js_sub a3 a2, js_sub a5 a4],
       world = \<lparr>clock = [], allocated = 8, disposed = [example_tensor 0, example_tensor 1]\<rparr>,
       calls = [DoRep 0 (Single (example_tensor 0)), DoRep 1 (Single (example_tensor 1)),
                AwaitData (example_tensor 1),
                Dispose (example_tensor 0), Dispose (example_tensor 1),
                Now a0, DoRep 0 (Single (example_tensor 2)), DoRep 1 (Single (example_tensor 3)),
                AwaitData (example_tensor 3), Now a1,
                Now a2, DoRep 0 (Single (example_tensor 4)), DoRep 1 (Single (example_tensor 5)),
                AwaitData (example_tensor 5), Now a3,
                Now a4, DoRep 0 (Single (example_tensor 6)), DoRep 1 (Single (example_tensor 7)),
                AwaitData (example_tensor 7), Now a5]\<rparr>,
      Some \<lparr>mean = js_div (js_add (js_add (js_add (Fin 0) (js_sub a1 a0)) (js_sub a3 a2)) (js_sub a5 a4)) (Fin 3),
            minT = js_min2 (js_min2 (js_min2 PInf (js_sub a1 a0)) (js_sub a3 a2)) (js_sub a5 a4),
            printed =
              [ConsoleLog [''Mean time: '' @ toFixed (js_div (js_add (js_add (js_add (Fin 0) (js_sub a1 a0)) (js_sub a3 a2)) (js_sub a5 a4)) (Fin 3)) 3
                 @ '' ms -> '' @ toFixed (js_div (js_div (js_add (js_add (js_add (Fin 0) (js_sub a1 a0)) (js_sub a3 a2)) (js_sub a5 a4)) (Fin 3)) (Fin 2)) 3 @ '' / rep''],
               ConsoleLog [''Min time: '' @ toFixed (js_min2 (js_min2 (js_min2 PInf (js_sub a1 a0)) (js_sub a3 a2)) (js_sub a5 a4)) 3
                 @ '' ms -> '' @ toFixed (js_div (js_min2 (js_min2 (js_min2 PInf (js_sub a1 a0)) (js_sub a3 a2)) (js_sub a5 a4)) (Fin 2)) 3 @ '' / rep'']]\<rparr>)"
  by (simp add: time_def trials_loop.simps trial_def reps_loop.simps dispose_def tracking_lib_def
      tracking_doRep_def Math_min_def Let_def numeral_2_eq_2 [symmetric])

text \<open>
  C5, as amended: every call of \<open>time\<close> starts with exactly one trial, which calls the work
  once per index below \<open>reps\<close>, reads no clock and records no duration; \<open>toDispose\<close> then
  holds every output of that trial. If that trial does not complete, the call ends there
  with the same outcome, with nothing disposed. If it completes, \<open>dispose()\<close> is called on
  each of these outputs, in order, and \<open>toDispose\<close> is emptied, and the timed loop starts
  in that state, its first call being a clock reading. When the call completes, the rest
  of the log holds \<open>trials\<close> further trials, and the durations, hence \<open>mean\<close> and \<open>min\<close>,
  are computed from the clock readings of that rest alone.
\<close>

theorem time_warm_up:
  assumes "time lib toFixed doRep endTrial d_arg trials_arg reps_arg w = (s, hf, sm)"
      and "d = (case d_arg of None \<Rightarrow> False | Some b \<Rightarrow> b)"
      and "trials = (case trials_arg of None \<Rightarrow> 50 | Some n \<Rightarrow> n)"
      and "reps = (case reps_arg of None \<Rightarrow> 1 | Some n \<Rightarrow> n)"
      and "trial lib doRep endTrial reps \<lparr>toDispose = [], timesT = [], world = w, calls = []\<rparr> = (s1, h1)"
      and "sequential_reps doRep [0..<reps] w = (xs, w1)"
  shows "do_reps (calls h1) = [0..<reps] \<and> now_readings (calls h1) = [] \<and>
         disposals (calls h1) = [] \<and> timesT h1 = [] \<and>
         toDispose h1 = concat (map (\<lambda>(r, res). case res of Many ts \<Rightarrow> ts | Single t \<Rightarrow> [t]) xs) \<and>
         (s1 \<noteq> Fulfils \<longrightarrow> s = s1 \<and> hf = h1 \<and> sm = None) \<and>
         (s1 = Fulfils \<longrightarrow>
            trials_loop lib doRep endTrial d trials reps 0
              (h1\<lparr>world := foldl (\<lambda>w t. tensor_dispose lib t w) (world h1) (toDispose h1),
                  calls := calls h1 @ map Dispose (toDispose h1),
                  toDispose := []\<rparr>) = (s, hf) \<and>
            (\<exists>rest. calls hf = calls h1 @ map Dispose (toDispose h1) @ rest \<and>
               (0 < trials \<longrightarrow> (\<exists>v rest'. rest = Now v # rest')) \<and>
               (s = Fulfils \<longrightarrow>
                  do_reps rest = concat (replicate trials [0..<reps]) \<and>
                  timesT hf = pair_diffs (now_readings rest) \<and> length (timesT hf) = trials \<and>
                  (\<exists>m. sm = Some m \<and>
                     mean m = js_div (foldl js_add (Fin 0) (pair_diffs (now_readings rest)))
                                (Fin (of_nat trials)) \<and>
                     minT m = Math_min (pair_diffs (now_readings rest))))))"
proof -
  from trial_calls [OF assms(5)] have h1:
    "do_reps (calls h1) = [0..<reps]" "now_readings (calls h1) = []" "disposals (calls h1) = []"
    "timesT h1 = []"
    by auto
  have acc: "toDispose h1 = concat (map (\<lambda>(r, res). case res of Many ts \<Rightarrow> ts | Single t \<Rightarrow> [t]) xs)"
    using trial_toDispose [OF assms(5)] assms(6) by simp
  have fails: "s = s1 \<and> hf = h1 \<and> sm = None" if "s1 \<noteq> Fulfils"
    using warm_up_rejected [OF assms(1) assms(5) [unfolded assms(4)] that] .
  have runs: "trials_loop lib doRep endTrial d trials reps 0
              (h1\<lparr>world := foldl (\<lambda>w t. tensor_dispose lib t w) (world h1) (toDispose h1),
                  calls := calls h1 @ map Dispose (toDispose h1),
                  toDispose := []\<rparr>) = (s, hf) \<and>
            (\<exists>rest. calls hf = calls h1 @ map Dispose (toDispose h1) @ rest \<and>
               (0 < trials \<longrightarrow> (\<exists>v rest'. rest = Now v # rest')) \<and>
               (s = Fulfils \<longrightarrow>
                  do_reps rest = concat (replicate trials [0..<reps]) \<and>
                  timesT hf = pair_diffs (now_readings rest) \<and> length (timesT hf) = trials \<and>
                  (\<exists>m. sm = Some m \<and>
                     mean m = js_div (foldl js_add (Fin 0) (pair_diffs (now_readings rest)))
                                (Fin (of_nat trials)) \<and>
                     minT m = Math_min (pair_diffs (now_readings rest)))))"
    if ful: "s1 = Fulfils"
  proof -
    note w = assms(5) [unfolded ful assms(4)]
    note tc = time_cases [OF assms(1) w]
    from tc(1) have loop: "trials_loop lib doRep endTrial d trials reps 0
              (h1\<lparr>world := foldl (\<lambda>w t. tensor_dispose lib t w) (world h1) (toDispose h1),
                  calls := calls h1 @ map Dispose (toDispose h1),
                  toDispose := []\<rparr>) = (s, hf)"
      unfolding assms(2) assms(3) assms(4) dispose_def .
    from trials_loop_log [OF tc(1)] obtain rest where rest:
      "calls hf = calls (dispose lib h1) @ rest"
      "s = Fulfils \<longrightarrow> timesT hf = timesT (dispose lib h1) @ pair_diffs (now_readings rest) \<and>
          length (timesT hf) = length (timesT (dispose lib h1)) + trials"
      "s = Fulfils \<longrightarrow> do_reps rest = concat (replicate trials [0..<reps])"
      "0 < trials \<longrightarrow> (\<exists>v rest'. rest = Now v # rest')"
      unfolding assms(3) assms(4) by auto
    from rest(1) have a1: "calls hf = calls h1 @ map Dispose (toDispose h1) @ rest"
      by (simp add: dispose_def)
    from rest(2) h1(4)
    have a2: "s = Fulfils \<longrightarrow> timesT hf = pair_diffs (now_readings rest) \<and> length (timesT hf) = trials"
      by (auto simp: dispose_def)
    note a = a1 a2
    have "\<exists>m. sm = Some m \<and>
             mean m = js_div (foldl js_add (Fin 0) (pair_diffs (now_readings rest))) (Fin (of_nat trials)) \<and>
             minT m = Math_min (pair_diffs (now_readings rest))" if "s = Fulfils"
      using tc(2) [OF that] a(2) that unfolding assms(3) by auto
    with a rest(3,4) loop show ?thesis by blast
  qed
  from h1 acc fails runs show ?thesis by blast
qed

theorem time_warm_up_witness:
  "\<exists>h1 hf m.
     trial tracking_lib tracking_doRep None 2
       \<lparr>toDispose = [], timesT = [],
        world = \<lparr>clock = [Fin 0, Fin 1, Fin 1, Fin 3, Fin 3, Fin 6], allocated = 0, disposed = []\<rparr>,
        calls = []\<rparr> = (Fulfils, h1) \<and>
     toDispose h1 = [example_tensor 0, example_tensor 1] \<and>
     calls h1 = [DoRep 0 (Single (example_tensor 0)), DoRep 1 (Single (example_tensor 1)),
                 AwaitData (example_tensor 1)] \<and>
     disposed (world h1) = [] \<and>
     time tracking_lib example_toFixed tracking_doRep None None (Some 3) (Some 2)
       \<lparr>clock = [Fin 0, Fin 1, Fin 1, Fin 3, Fin 3, Fin 6], allocated = 0, disposed = []\<rparr> =
       (Fulfils, hf, Some m) \<and>
     calls hf = calls h1 @ [Dispose (example_tensor 0), Dispose (example_tensor 1)] @
       [Now (Fin 0), DoRep 0 (Single (example_tensor 2)), DoRep 1 (Single (example_tensor 3)),
        AwaitData (example_tensor 3), Now (Fin 1),
        Now (Fin 1), DoRep 0 (Single (example_tensor 4)), DoRep 1 (Single (example_tensor 5)),
        AwaitData (example_tensor 5), Now (Fin 3),
        Now (Fin 3), DoRep 0 (Single (example_tensor 6)), DoRep 1 (Single (example_tensor 7)),
        AwaitData (example_tensor 7), Now (Fin 6)] \<and>
     disposed (world hf) = [example_tensor 0, example_tensor 1] \<and>
     timesT hf = [Fin 1, Fin 2, Fin 3] \<and> mean m = Fin 2 \<and> minT m = Fin 1"
proof -
  let ?w = "\<lparr>clock = [Fin 0, Fin 1, Fin 1, Fin 3, Fin 3, Fin 6], allocated = 0, disposed = []\<rparr>"
  let ?w1 = "\<lparr>clock = [Fin 0, Fin 1, Fin 1, Fin 3, Fin 3, Fin 6], allocated = 2, disposed = []\<rparr>"
  let ?h1 = "\<lparr>toDispose = [example_tensor 0, example_tensor 1], timesT = [], world = ?w1,
              calls = [DoRep 0 (Single (example_tensor 0)), DoRep 1 (Single (example_tensor 1)),
                       AwaitData (example_tensor 1)]\<rparr>"
  obtain hf sm where run:
    "time tracking_lib example_toFixed tracking_doRep None None (Some 3) (Some 2) ?w = (Fulfils, hf, sm)"
    by (simp add: tracking_run)
  have tr: "trial tracking_lib tracking_doRep None 2
              \<lparr>toDispose = [], timesT = [], world = ?w, calls = []\<rparr> = (Fulfils, ?h1)"
    by (simp add: trial_def reps_loop.simps tracking_lib_def tracking_doRep_def)
  have u: "[0..<2] = [0, 1]" by (simp add: upt_rec)
  have seq: "sequential_reps tracking_doRep [0..<2] ?w =
               ([(0, Single (example_tensor 0)), (1, Single (example_tensor 1))], ?w1)"
    by (simp add: u tracking_doRep_def)
  from time_warm_up [OF run _ _ _ tr seq, of False 3]
  have "toDispose ?h1 = [example_tensor 0, example_tensor 1]"
    and "length (timesT hf) = 3" and "\<exists>m. sm = Some m"
    by auto
  with run tr show ?thesis
    by (auto simp: tracking_run exact_round)
qed

text \<open>
  C5 as stated fails for a call whose warm-up trial does not complete: with a hook that
  rejects, the promise of \<open>time\<close> is rejected at the \<open>await\<close> of the warm-up; the output
  of the warm-up stays in \<open>toDispose\<close> and \<open>dispose()\<close> is called on no tensor.
\<close>

theorem warm_up_rejection_keeps_outputs:
  "time tracking_lib example_toFixed tracking_doRep (Some rejecting_endTrial) None None None
       \<lparr>clock = [Fin 0, Fin 1], allocated = 0, disposed = []\<rparr> =
     (RejectsWith (Reason ''readback failed''),
      \<lparr>toDispose = [example_tensor 0], timesT = [],
       world = \<lparr>clock = [Fin 0, Fin 1], allocated = 1, disposed = []\<rparr>,
       calls = [DoRep 0 (Single (example_tensor 0)), EndTrial]\<rparr>,
      None)"
  by (simp add: time_def trial_def reps_loop.simps tracking_doRep_def rejecting_endTrial_def)

text \<open>
  C10: when \<open>disposeAfterEachTrial\<close> is false (or left out) and the warm-up trial
  completes, then however the call ends, nothing is disposed after the disposal of the
  warm-up's outputs; \<open>toDispose\<close> holds at the end every output returned after the warm-up,
  and what it holds after any smaller number of timed trials is a prefix of what it holds
  at the end.
\<close>

theorem time_keeps_outputs:
  assumes "time lib toFixed doRep endTrial d_arg trials_arg reps_arg w = (s, hf, sm)"
      and "d_arg = None \<or> d_arg = Some False"
      and "trials = (case trials_arg of None \<Rightarrow> 50 | Some n \<Rightarrow> n)"
      and "reps = (case reps_arg of None \<Rightarrow> 1 | Some n \<Rightarrow> n)"
      and "trial lib doRep endTrial reps \<lparr>toDispose = [], timesT = [], world = w, calls = []\<rparr> = (Fulfils, h1)"
  shows "(\<exists>rest. calls hf = calls h1 @ map Dispose (toDispose h1) @ rest \<and>
            disposals rest = [] \<and> toDispose hf = outputs rest \<and>
            disposals (calls hf) = toDispose h1 \<and> toDispose h1 = outputs (calls h1)) \<and>
         (\<forall>k\<le>trials. \<exists>sk hk.
            trials_loop lib doRep endTrial False k reps 0 (dispose lib h1) = (sk, hk) \<and>
            prefix (toDispose hk) (toDispose hf))"
proof -
  from assms(2) have d: "(case d_arg of None \<Rightarrow> False | Some b \<Rightarrow> b) = False" by auto
  note tc = time_cases(1) [OF assms(1) assms(5) [unfolded assms(4)], unfolded d, folded assms(3) assms(4)]
  from trial_calls [OF assms(5)] have h1:
    "disposals (calls h1) = []" "toDispose h1 = outputs (calls h1)"
    by auto
  from trials_loop_log [OF tc] obtain rest where rest:
    "calls hf = calls (dispose lib h1) @ rest" "disposals rest = []"
    "toDispose hf = toDispose (dispose lib h1) @ outputs rest"
    by auto
  with h1 have first: "\<exists>rest. calls hf = calls h1 @ map Dispose (toDispose h1) @ rest \<and>
            disposals rest = [] \<and> toDispose hf = outputs rest \<and>
            disposals (calls hf) = toDispose h1 \<and> toDispose h1 = outputs (calls h1)"
    by (intro exI [of _ rest]) (simp add: dispose_def)
  have second: "\<exists>sk hk. trials_loop lib doRep endTrial False k reps 0 (dispose lib h1) = (sk, hk) \<and>
            prefix (toDispose hk) (toDispose hf)" if k: "k \<le> trials" for k
  proof -
    obtain sk hk where lk: "trials_loop lib doRep endTrial False k reps 0 (dispose lib h1) = (sk, hk)"
      by (cases "trials_loop lib doRep endTrial False k reps 0 (dispose lib h1)")
    note sp = trials_loop_split [OF lk k]
    show ?thesis
    proof (cases "sk = Fulfils")
      case True
      with sp tc have "trials_loop lib doRep endTrial False trials reps (max 0 k) hk = (s, hf)"
        by simp
      from trials_loop_log [OF this] have "prefix (toDispose hk) (toDispose hf)"
        by (auto simp: prefix_def)
      with lk show ?thesis by blast
    next
      case False
      with sp tc have "hk = hf" by simp
      with lk show ?thesis by auto
    qed
  qed
  from first second show ?thesis by blast
qed

theorem time_keeps_outputs_witness:
  "\<exists>hf sm. time example_lib example_toFixed example_doRep None None (Some 3) None
              [Fin 0, Fin 1, Fin 1, Fin 3, Fin 3, Fin 6] = (Fulfils, hf, sm) \<and>
     toDispose hf = [example_tensor 0, example_tensor 0, example_tensor 0] \<and>
     disposals (calls hf) = [example_tensor 0] \<and>
     outputs (calls hf) = [example_tensor 0, example_tensor 0, example_tensor 0, example_tensor 0]"
proof -
  let ?w = "[Fin 0, Fin 1, Fin 1, Fin 3, Fin 3, Fin 6]"
  let ?h1 = "\<lparr>toDispose = [example_tensor 0], timesT = [], world = ?w,
              calls = [DoRep 0 (Single (example_tensor 0)), AwaitData (example_tensor 0)]\<rparr>"
  obtain hf sm where run: "time example_lib example_toFixed example_doRep None None (Some 3) None ?w = (Fulfils, hf, sm)"
    by (simp add: example_run)
  have tr: "trial example_lib example_doRep None (case None of None \<Rightarrow> 1 | Some n \<Rightarrow> n)
              \<lparr>toDispose = [], timesT = [], world = ?w, calls = []\<rparr> = (Fulfils, ?h1)"
    by (simp add: trial_def reps_loop.simps example_lib_def example_doRep_def)
  have d: "(None :: bool option) = None \<or> (None :: bool option) = Some False" by simp
  from time_keeps_outputs [OF run d refl refl tr]
  have "disposals (calls hf) = toDispose ?h1" by blast
  with run show ?thesis
    by (auto simp: example_run)
qed

end
